theory Spec2Isabelle
  imports Complex_Main "HOL-Library.Sublist" "HOL-Library.List_Lexorder" "HOL-Library.Product_Lexorder"
begin

section \<open>Python strings\<close>

text \<open>
  A Python \<open>str\<close> is a sequence of Unicode code points: a character is its code point
  (an integer) and a string is a list of them. \<open>ascii\<close> reads an ASCII literal;
  the characters outside ASCII that the source uses are written by code point:
  \<open>8364\<close> the euro sign, \<open>163\<close> the pound sign, \<open>233\<close> e acute, \<open>224\<close> a grave,
  \<open>231\<close> c cedilla, \<open>232\<close> e grave, \<open>8776\<close> the almost-equal sign, \<open>8211\<close> the en dash,
  \<open>8217\<close> the right single quotation mark, \<open>729\<close> the dot above.

  Python's Unicode tables are modelled on the part of Unicode the source's
  vocabularies and patterns use: \<open>lower1\<close> folds the ASCII and Latin-1 capital letters
  and leaves every other code point as it is (so lowering is character by character),
  \<open>is_digit\<close> (the pattern class \<open>\d\<close>) is the ASCII digits, \<open>is_space\<close> (the class
  \<open>\s\<close>, \<open>str.strip\<close>, \<open>str.split\<close>) is the full list of \<open>str.isspace\<close>, and
  \<open>is_word\<close> (the class \<open>\w\<close> behind \<open>\b\<close>) is the ASCII and Latin-1 alphanumerics
  and the underscore.
\<close>

type_synonym uchar = int
type_synonym ustr = "int list"

definition ascii :: "string \<Rightarrow> ustr" where
  "ascii cs = map of_char cs"

definition lower1 :: "uchar \<Rightarrow> uchar" where
  "lower1 c = (if (65 \<le> c \<and> c \<le> 90) \<or> (192 \<le> c \<and> c \<le> 222 \<and> c \<noteq> 215) then c + 32 else c)"

definition lower :: "ustr \<Rightarrow> ustr" where
  "lower s = map lower1 s"

definition is_digit :: "uchar \<Rightarrow> bool" where
  "is_digit c = (48 \<le> c \<and> c \<le> 57)"

definition is_space :: "uchar \<Rightarrow> bool" where
  "is_space c = ((9 \<le> c \<and> c \<le> 13) \<or> (28 \<le> c \<and> c \<le> 32) \<or> c = 133 \<or> c = 160 \<or> c = 5760
     \<or> (8192 \<le> c \<and> c \<le> 8202) \<or> c = 8232 \<or> c = 8233 \<or> c = 8239 \<or> c = 8287 \<or> c = 12288)"

definition is_word :: "uchar \<Rightarrow> bool" where
  "is_word c = ((48 \<le> c \<and> c \<le> 57) \<or> (65 \<le> c \<and> c \<le> 90) \<or> (97 \<le> c \<and> c \<le> 122) \<or> c = 95
     \<or> c = 170 \<or> c = 178 \<or> c = 179 \<or> c = 181 \<or> c = 185 \<or> c = 186 \<or> (188 \<le> c \<and> c \<le> 190)
     \<or> (192 \<le> c \<and> c \<le> 214) \<or> (216 \<le> c \<and> c \<le> 246) \<or> (248 \<le> c \<and> c \<le> 255))"

text \<open>\<open>c in t\<close> on strings: \<open>c\<close> occurs in \<open>t\<close> as a contiguous run.\<close>

definition str_in :: "ustr \<Rightarrow> ustr \<Rightarrow> bool" where
  "str_in c t = sublist c t"

text \<open>\<open>any(c in t for c in cues)\<close>.\<close>

definition any_in :: "ustr list \<Rightarrow> ustr \<Rightarrow> bool" where
  "any_in cues t = list_ex (\<lambda>c. str_in c t) cues"

text \<open>\<open>s.strip()\<close>, \<open>s.split()\<close>, \<open>s.replace(c, new)\<close> for a one-character \<open>c\<close>
  (every \<open>replace\<close> of the source is one), \<open>sep.join(ws)\<close>.\<close>

definition strip :: "ustr \<Rightarrow> ustr" where
  "strip s = rev (dropWhile is_space (rev (dropWhile is_space s)))"

function split_ws :: "ustr \<Rightarrow> ustr list" where
  "split_ws s =
     (case dropWhile is_space s of
        [] \<Rightarrow> []
      | x # xs \<Rightarrow> takeWhile (\<lambda>c. \<not> is_space c) (x # xs)
                 # split_ws (dropWhile (\<lambda>c. \<not> is_space c) xs))"
  by pat_completeness auto
termination
proof (relation "measure length", goal_cases)
  case 1
  show ?case by simp
next
  case (2 s x xs)
  have "length (dropWhile (\<lambda>c. \<not> is_space c) xs) \<le> length xs"
    by (rule length_dropWhile_le)
  moreover have "length (x # xs) \<le> length s"
    using 2 length_dropWhile_le [of is_space s] by simp
  ultimately show ?case by simp
qed

definition replace_chr :: "uchar \<Rightarrow> ustr \<Rightarrow> ustr \<Rightarrow> ustr" where
  "replace_chr c new s = concat (map (\<lambda>x. if x = c then new else [x]) s)"

fun join :: "ustr \<Rightarrow> ustr list \<Rightarrow> ustr" where
  "join sep [] = []"
| "join sep [w] = w"
| "join sep (w # ws) = w @ sep @ join sep ws"

text \<open>\<open>t.find(p)\<close>: the index of the first occurrence, \<open>None\<close> where Python returns \<open>-1\<close>.
  \<open>s.rfind(c)\<close> for a character keeps Python's \<open>-1\<close>, since the source takes the
  maximum of two of them.\<close>

fun find_from :: "ustr \<Rightarrow> ustr \<Rightarrow> nat \<Rightarrow> nat option" where
  "find_from p [] i = (if p = [] then Some i else None)"
| "find_from p (x # xs) i = (if prefix p (x # xs) then Some i else find_from p xs (Suc i))"

definition str_find :: "ustr \<Rightarrow> ustr \<Rightarrow> nat option" where
  "str_find t p = find_from p t 0"

fun rfind_chr :: "ustr \<Rightarrow> uchar \<Rightarrow> int" where
  "rfind_chr [] c = -1"
| "rfind_chr (x # xs) c =
     (let r = rfind_chr xs c in if 0 \<le> r then r + 1 else if x = c then 0 else -1)"

text \<open>
  \<open>float(s)\<close>. Every string the source hands to \<open>float\<close> is cut from the numeric group
  of a money pattern, so it is made of digits, \<open>.\<close> and \<open>,\<close> only; on those \<open>float\<close>
  accepts exactly the unsigned decimal literals (digits, at most one point, at least one
  digit) and raises \<open>ValueError\<close> otherwise, which is \<open>None\<close> here. The other forms
  \<open>float\<close> accepts (sign, exponent, underscores, surrounding blanks, \<open>inf\<close>, \<open>nan\<close>)
  cannot reach it and are not modelled. The value is the exact rational: the rounding of
  a binary float is not modelled.
\<close>

definition digits_val :: "ustr \<Rightarrow> int" where
  "digits_val ds = foldl (\<lambda>a d. 10 * a + (d - 48)) 0 ds"

definition py_float :: "ustr \<Rightarrow> rat option" where
  "py_float s =
     (let a = takeWhile (\<lambda>c. c \<noteq> 46) s; r = dropWhile (\<lambda>c. c \<noteq> 46) s
      in case r of
           [] \<Rightarrow> (if a \<noteq> [] \<and> list_all is_digit a then Some (of_int (digits_val a)) else None)
         | _ # b \<Rightarrow> (if list_all is_digit a \<and> list_all is_digit b \<and> a @ b \<noteq> []
                     then Some (of_int (digits_val a) + of_int (digits_val b) / 10 ^ length b)
                     else None))"

section \<open>Regular expressions: Python's backtracking matcher\<close>

text \<open>
  The patterns of the source are translated construct by construct into \<open>rx\<close>.
  \<open>ms r s (i, c)\<close> lists, in the order in which Python's backtracking matcher tries
  them, the states (end position, captured groups) in which \<open>r\<close> can match \<open>s\<close> from
  position \<open>i\<close>: a greedy \<open>?\<close> or \<open>*\<close> tries its body before it tries to skip it, an
  alternation tries its branches from left to right. The head of the list is the match
  Python reports. A capture is (group name, start, end), the most recent first.
\<close>

datatype rx =
    Eps
  | Sym "uchar \<Rightarrow> bool"
  | Seq rx rx
  | Alt rx rx
  | Opt rx
  | Star rx
  | Grp string rx
  | WordB

type_synonym caps = "(string \<times> nat \<times> nat) list"

definition word_at :: "ustr \<Rightarrow> nat \<Rightarrow> bool" where
  "word_at s i = (i < length s \<and> is_word (s ! i))"

definition at_boundary :: "ustr \<Rightarrow> nat \<Rightarrow> bool" where
  "at_boundary s i = ((0 < i \<and> word_at s (i - 1)) \<noteq> word_at s i)"

function ms :: "rx \<Rightarrow> ustr \<Rightarrow> nat \<times> caps \<Rightarrow> (nat \<times> caps) list" where
  "ms Eps s st = [st]"
| "ms (Sym P) s (i, c) = (if i < length s \<and> P (s ! i) then [(Suc i, c)] else [])"
| "ms (Seq a b) s st = concat (map (ms b s) (ms a s st))"
| "ms (Alt a b) s st = ms a s st @ ms b s st"
| "ms (Opt a) s st = ms a s st @ [st]"
| "ms (Star a) s (i, c) =
     concat (map (\<lambda>(j, c'). if i < j \<and> j \<le> length s then ms (Star a) s (j, c') else [])
                 (ms a s (i, c))) @ [(i, c)]"
| "ms (Grp g a) s (i, c) = map (\<lambda>(j, c'). (j, (g, i, j) # c')) (ms a s (i, c))"
| "ms WordB s (i, c) = (if at_boundary s i then [(i, c)] else [])"
  by pat_completeness auto
termination
  by (relation "measures [\<lambda>(r, s, st). size r, \<lambda>(r, s, (i, c)). length s - i]") auto

text \<open>A match object: the string searched, the span of the whole match, the groups.\<close>

record rmatch =
  m_string :: ustr
  m_start :: nat
  m_end :: nat
  m_caps :: caps

definition slice :: "ustr \<Rightarrow> nat \<Rightarrow> nat \<Rightarrow> ustr" where
  "slice s i j = take (j - i) (drop i s)"

definition group0 :: "rmatch \<Rightarrow> ustr" where
  "group0 m = slice (m_string m) (m_start m) (m_end m)"

text \<open>\<open>m.group(name)\<close>: \<open>None\<close> for a group that took no part in the match.\<close>

definition m_group :: "rmatch \<Rightarrow> string \<Rightarrow> ustr option" where
  "m_group m g = map_option (\<lambda>(i, j). slice (m_string m) i j) (map_of (m_caps m) g)"

text \<open>\<open>x or ""\<close> on an optional string.\<close>

definition or_empty :: "ustr option \<Rightarrow> ustr" where
  "or_empty x = (case x of None \<Rightarrow> [] | Some v \<Rightarrow> v)"

definition match_at :: "rx \<Rightarrow> ustr \<Rightarrow> nat \<Rightarrow> rmatch option" where
  "match_at r s i =
     (case ms r s (i, []) of
        [] \<Rightarrow> None
      | (j, c) # _ \<Rightarrow> Some \<lparr>m_string = s, m_start = i, m_end = j, m_caps = c\<rparr>)"

fun first_match :: "rx \<Rightarrow> ustr \<Rightarrow> nat list \<Rightarrow> rmatch option" where
  "first_match r s [] = None"
| "first_match r s (i # is) =
     (case match_at r s i of Some m \<Rightarrow> Some m | None \<Rightarrow> first_match r s is)"

text \<open>\<open>pattern.search(s)\<close> tries the start positions \<open>0 .. len(s)\<close> from the left;
  \<open>search_from\<close> starts at a later position, as \<open>finditer\<close> does after a match.\<close>

definition search_from :: "rx \<Rightarrow> ustr \<Rightarrow> nat \<Rightarrow> rmatch option" where
  "search_from r s i = first_match r s [i..<Suc (length s)]"

definition search :: "rx \<Rightarrow> ustr \<Rightarrow> rmatch option" where
  "search r s = search_from r s 0"

text \<open>
  \<open>pattern.finditer(s)\<close>: the matches from left to right, each search starting where
  the previous match ended. The money pattern never matches the empty string (it needs
  a digit), so the rule Python applies after an empty match is not modelled: the
  iteration ends at a match that does not advance.
\<close>

function finditer_from :: "rx \<Rightarrow> ustr \<Rightarrow> nat \<Rightarrow> rmatch list" where
  "finditer_from r s i =
     (case search_from r s i of
        None \<Rightarrow> []
      | Some m \<Rightarrow> (if i < m_end m \<and> m_end m \<le> length s
                   then m # finditer_from r s (m_end m) else [m]))"
  by pat_completeness auto
termination
  by (relation "measure (\<lambda>(r, s, i). length s - i)") auto

definition finditer :: "rx \<Rightarrow> ustr \<Rightarrow> rmatch list" where
  "finditer r s = finditer_from r s 0"

subsection \<open>Pattern notation\<close>

definition rx_chr :: "uchar \<Rightarrow> rx" where
  "rx_chr c = Sym (\<lambda>x. x = c)"

definition cls :: "ustr \<Rightarrow> rx" where
  "cls cs = Sym (\<lambda>x. x \<in> set cs)"

definition dig :: rx where
  "dig = Sym is_digit"

definition spc :: rx where
  "spc = Sym is_space"

fun seqs :: "rx list \<Rightarrow> rx" where
  "seqs [] = Eps"
| "seqs [r] = r"
| "seqs (r # rs) = Seq r (seqs rs)"

fun alts :: "rx list \<Rightarrow> rx" where
  "alts [] = Sym (\<lambda>x. False)"
| "alts [r] = r"
| "alts (r # rs) = Alt r (alts rs)"

text \<open>A literal; \<open>litI\<close> is a literal under \<open>re.I\<close>.\<close>

definition litu :: "ustr \<Rightarrow> rx" where
  "litu w = seqs (map rx_chr w)"

definition lit :: "string \<Rightarrow> rx" where
  "lit w = litu (ascii w)"

definition litI :: "string \<Rightarrow> rx" where
  "litI w = seqs (map (\<lambda>c. Sym (\<lambda>x. lower1 x = lower1 c)) (ascii w))"

text \<open>\<open>r+\<close>, \<open>r{n}\<close> and the greedy \<open>r{lo,hi}\<close>, which tries the longest count first.\<close>

definition rx_plus :: "rx \<Rightarrow> rx" where
  "rx_plus r = Seq r (Star r)"

fun rep :: "nat \<Rightarrow> rx \<Rightarrow> rx" where
  "rep 0 r = Eps"
| "rep (Suc 0) r = r"
| "rep (Suc n) r = Seq r (rep n r)"

fun rx_upto :: "nat \<Rightarrow> rx \<Rightarrow> rx" where
  "rx_upto 0 r = Eps"
| "rx_upto (Suc 0) r = Opt r"
| "rx_upto (Suc n) r = Opt (Seq r (rx_upto n r))"

definition rep_range :: "nat \<Rightarrow> nat \<Rightarrow> rx \<Rightarrow> rx" where
  "rep_range lo hi r = Seq (rep lo r) (rx_upto (hi - lo) r)"


section \<open>scrape\_reddit\_agents.py: the weighted score (Strategy B)\<close>

text \<open>
  Names of the source that begin with an underscore lose it here
  (\<open>_to_float_amount\<close> is \<open>to_float_amount\<close>), since an Isabelle name cannot begin
  with one.
\<close>

subsection \<open>Vocabularies and patterns\<close>

definition CURRENCY_MAP :: "(ustr \<times> ustr) list" where
  "CURRENCY_MAP = [([8364], ascii ''EUR''), ([36], ascii ''USD''), ([163], ascii ''GBP'')]"

definition CURRENCY_CODES :: "ustr list" where
  "CURRENCY_CODES = [ascii ''eur'', ascii ''usd'', ascii ''gbp'', [8364], [36], [163]]"

text \<open>The numeric literal of a money match; both money patterns spell it the same:
  \<^verbatim>\<open>\d{1,3}(?:[.,]\d{3})*(?:[.,]\d+)?|\d+(?:[.,]\d+)?\<close>.\<close>

definition number_rx :: rx where
  "number_rx =
     Alt (seqs [rep_range 1 3 dig,
                Star (Seq (cls (ascii ''.,'')) (rep 3 dig)),
                Opt (Seq (cls (ascii ''.,'')) (rx_plus dig))])
         (seqs [rx_plus dig, Opt (Seq (cls (ascii ''.,'')) (rx_plus dig))])"

text \<open>
  \<^verbatim>\<open>(?P<currency>[$ euro pound]?)\s*(?P<amount>...)\s*(?P<mult>[kKmM])?\s*\<close>
  \<^verbatim>\<open>(?P<unit>(?:/|\bper\s+|p/)?\s*(?:d(?:ay)?|jour|j|w(?:k|eek)?|semaine|sem|\<close>
  \<^verbatim>\<open>mo(?:nth)?|month|mois|m|y(?:r|ear)?|an|annee|ans))?\<close>
  (under \<open>re.VERBOSE\<close>, which drops the blanks of the pattern text).
\<close>

definition unit_rx :: rx where
  "unit_rx =
     seqs [Opt (alts [rx_chr 47, seqs [WordB, lit ''per'', rx_plus spc], lit ''p/'']),
           Star spc,
           alts [Seq (lit ''d'') (Opt (lit ''ay'')), lit ''jour'', lit ''j'',
                 Seq (lit ''w'') (Opt (Alt (lit ''k'') (lit ''eek''))), lit ''semaine'', lit ''sem'',
                 Seq (lit ''mo'') (Opt (lit ''nth'')), lit ''month'', lit ''mois'', lit ''m'',
                 Seq (lit ''y'') (Opt (Alt (lit ''r'') (lit ''ear''))), lit ''an'',
                 litu (ascii ''ann'' @ [233] @ ascii ''e''), lit ''ans'']]"

definition REVENUE_PATTERNS :: rx where
  "REVENUE_PATTERNS =
     seqs [Grp ''currency'' (Opt (cls [36, 8364, 163])),
           Star spc,
           Grp ''amount'' number_rx,
           Star spc,
           Opt (Grp ''mult'' (cls (ascii ''kKmM''))),
           Star spc,
           Opt (Grp ''unit'' unit_rx)]"

definition SERVICE_CUES :: "ustr list" where
  "SERVICE_CUES = map ascii
     [''openai'', ''assistants api'', ''gpt-4'', ''gpt-4o'', ''anthropic'', ''claude'',
      ''cohere'', ''langchain'', ''llamaindex'', ''crewai'', ''autogen'', ''openagents'',
      ''flowise'', ''n8n'', ''zapier'', ''make.com'', ''make (integromat)'', ''relevance ai'',
      ''agentops'', ''vercel ai sdk'', ''modal'', ''bedrock'', ''vertex ai'', ''hugging face'',
      ''groq'', ''ollama'']"

definition NICHE_PIVOTS :: "ustr list" where
  "NICHE_PIVOTS =
     [ascii ''for '', ascii ''pour '', ascii ''to help '', ascii ''serving '', ascii ''targeting '',
      ascii ''for helping '', ascii ''aider '', ascii ''aupr'' @ [232] @ ascii ''s des '',
      ascii ''with '']"

definition SUCCESS_CUES :: "ustr list" where
  "SUCCESS_CUES =
     [ascii ''paying customer'', ascii ''paying customers'', ascii ''mrr'', ascii ''arr'',
      ascii ''profitable'', ascii ''sold'', ascii ''closed'', ascii ''booked'', ascii ''recurring'',
      ascii ''retain'', ascii ''retainer'', ascii ''works well'', ascii ''working well'',
      ascii ''it works'', ascii ''fonctionne'', [231] @ ascii ''a marche'',
      ascii ''clients payent'', ascii ''clients payants'']"

definition DOUBT_CUES :: "ustr list" where
  "DOUBT_CUES =
     [ascii ''anyone making'', ascii ''anyone here'', ascii ''how to'', ascii ''question'',
      ascii ''help'', ascii ''struggling'', ascii ''trying'', ascii ''explore'', ascii ''exploring'',
      ascii ''idea'', ascii ''id'' @ [233] @ ascii ''e'', ascii ''en cours'',
      ascii ''h'' @ [233] @ ascii ''site'', ascii ''tester'', ascii ''tests'',
      ascii ''proof of concept'', ascii ''poc'']"

definition FAIL_CUES :: "ustr list" where
  "FAIL_CUES =
     [ascii ''failed'', ascii ''no sales'', ascii ''can'' @ [39] @ ascii ''t monetize'',
      ascii ''cannot monetize'', ascii ''didn'' @ [39] @ ascii ''t sell'', ascii ''aucune vente'',
      ascii ''pas de vente'',
      ascii ''impossible '' @ [224] @ ascii '' mon'' @ [233] @ ascii ''tiser'',
      [233] @ ascii ''chec'']"

definition APPROX_CUES :: "ustr list" where
  "APPROX_CUES =
     [ascii ''~'', [8776], ascii ''about'', ascii ''around'', ascii ''approx'',
      ascii ''approximately'', ascii ''environ'', ascii ''roughly'', ascii ''presque'']"

text \<open>\<^verbatim>\<open>\b\d+(?:[.,]?\d+)?\s*[-en-dash]\s*\d+(?:[.,]?\d+)?\b\<close>\<close>

definition RANGE_PATTERN :: rx where
  "RANGE_PATTERN =
     seqs [WordB, rx_plus dig, Opt (Seq (Opt (cls (ascii ''.,''))) (rx_plus dig)),
           Star spc, cls [45, 8211], Star spc,
           rx_plus dig, Opt (Seq (Opt (cls (ascii ''.,''))) (rx_plus dig)), WordB]"

subsection \<open>Parsing helpers\<close>

definition to_float_amount :: "ustr \<Rightarrow> rat option" where
  "to_float_amount amount_str =
     (if amount_str = [] then None
      else
        let s = replace_chr 729 [46] (replace_chr 8217 [] (replace_chr 32 [] (strip amount_str)));
            s' = (if str_in [44] s \<and> str_in [46] s then
                    let last = nat (max (rfind_chr s 44) (rfind_chr s 46));
                        int_part = filter (\<lambda>c. c \<noteq> 46 \<and> c \<noteq> 44) (take last s);
                        frac_part = drop (last + 1) s
                    in int_part @ [46] @ frac_part
                  else if str_in [44] s \<and> \<not> str_in [46] s then replace_chr 44 [46] s
                  else s)
        in py_float s')"

text \<open>The result is the tuple (amount, currency, period, original) of the source.\<close>

definition normalize_revenue :: "rmatch \<Rightarrow> rat option \<times> ustr option \<times> ustr option \<times> ustr" where
  "normalize_revenue m =
     (let original = strip (group0 m);
          currency_sym = or_empty (m_group m ''currency'');
          currency = (if currency_sym \<noteq> [] then map_of CURRENCY_MAP currency_sym else None);
          amount_raw = strip (or_empty (m_group m ''amount''));
          amount = to_float_amount amount_raw;
          mult = lower (or_empty (m_group m ''mult''));
          unit_s = replace_chr 32 [] (lower (or_empty (m_group m ''unit'')))
      in case amount of
           None \<Rightarrow> (None, currency, None, original)
         | Some a \<Rightarrow>
             (let a' = (if mult = ascii ''k'' then a * 1000
                        else if mult = ascii ''m'' then a * 1000000 else a);
                  period =
                    (if any_in [ascii ''mo'', ascii ''month'', ascii ''mois'', ascii ''/m''] unit_s
                     then Some (ascii ''month'')
                     else if any_in [ascii ''wk'', ascii ''w'', ascii ''week'', ascii ''semaine'',
                                     ascii ''sem''] unit_s
                     then Some (ascii ''week'')
                     else if any_in [ascii ''d'', ascii ''day'', ascii ''jour'', ascii ''j''] unit_s
                     then Some (ascii ''day'')
                     else if any_in [ascii ''yr'', ascii ''y'', ascii ''year'', ascii ''an'',
                                     ascii ''ann'' @ [233] @ ascii ''e'', ascii ''ans''] unit_s
                     then Some (ascii ''year'')
                     else None)
              in (Some a', currency, period, original)))"

text \<open>\<open>find_niche\<close>: the loop over the pivots is \<open>niche_scan\<close>; \<open>re.split\<close> on a
  one-character class, taken at index 0, is the text before the first such character.\<close>

definition niche_stops :: ustr where
  "niche_stops = ascii ''.?!;:()[]{}|/'' @ [92]"

fun niche_scan :: "ustr \<Rightarrow> ustr list \<Rightarrow> ustr" where
  "niche_scan t [] = []"
| "niche_scan t (p # ps) =
     (case str_find (lower t) ([32] @ p) of
        Some idx \<Rightarrow>
          (let start = idx + 1 + length p;
               tail = drop start t;
               ws = split_ws tail;
               snippet = join [32] (take 12 ws);
               snippet' = takeWhile (\<lambda>c. c \<notin> set niche_stops) snippet
           in strip snippet')
      | None \<Rightarrow> niche_scan t ps)"

definition find_niche :: "ustr \<Rightarrow> ustr" where
  "find_niche text = niche_scan ([32] @ replace_chr 10 [32] text @ [32]) NICHE_PIVOTS"

definition text_has_any :: "ustr \<Rightarrow> ustr list \<Rightarrow> bool" where
  "text_has_any text cues = any_in cues (lower text)"

definition has_currency_code :: "ustr \<Rightarrow> bool" where
  "has_currency_code text = any_in CURRENCY_CODES (lower text)"

definition detect_period :: "ustr option \<Rightarrow> ustr \<Rightarrow> ustr option" where
  "detect_period unit_text full_text =
     (let u = lower (or_empty unit_text); ft = lower full_text
      in if any_in [ascii ''d'', ascii ''day'', ascii ''jour'', ascii ''j''] u
            \<or> any_in [ascii '' per day'', ascii ''/d'', ascii ''par jour''] ft
         then Some (ascii ''day'')
         else if any_in [ascii ''wk'', ascii ''w'', ascii ''week'', ascii ''semaine'', ascii ''sem''] u
            \<or> any_in [ascii '' per week'', ascii ''/wk'', ascii ''/w'', ascii ''par semaine''] ft
         then Some (ascii ''week'')
         else if any_in [ascii ''mo'', ascii ''month'', ascii ''mois'', ascii ''m''] u
            \<or> any_in [ascii '' per month'', ascii ''/mo'', ascii ''/m'', ascii ''par mois''] ft
         then Some (ascii ''month'')
         else if any_in [ascii ''yr'', ascii ''y'', ascii ''year'', ascii ''an'',
                         ascii ''ann'' @ [233] @ ascii ''e'', ascii ''ans''] u
            \<or> any_in [ascii '' per year'', ascii ''/yr'', ascii ''/y'', ascii ''par an'',
                       ascii ''par ann'' @ [233] @ ascii ''e''] ft
         then Some (ascii ''year'')
         else None)"

definition precision_points :: "ustr \<Rightarrow> ustr \<Rightarrow> int" where
  "precision_points body rev_text =
     (let approx = (text_has_any rev_text APPROX_CUES \<or> text_has_any body APPROX_CUES);
          ranged = (search RANGE_PATTERN rev_text \<noteq> None \<or> search RANGE_PATTERN body \<noteq> None)
      in if approx \<or> ranged then 5 else 10)"

definition period_points :: "ustr option \<Rightarrow> int" where
  "period_points period =
     (if period = Some (ascii ''week'') then 15
      else if period = Some (ascii ''month'') then 15
      else if period = Some (ascii ''day'') then 15
      else if period = Some (ascii ''year'') then 15
      else if period \<noteq> None \<and> period \<noteq> Some [] then 5 else 0)"

text \<open>\<^verbatim>\<open>\b[A-Z][A-Za-z0-9&.\-]{2,}\b(?:\s(?:Inc|LLC|Ltd|SAS|GmbH|SARL|AG)\b)\<close>\<close>

definition company_chr :: "uchar \<Rightarrow> bool" where
  "company_chr c = ((65 \<le> c \<and> c \<le> 90) \<or> (97 \<le> c \<and> c \<le> 122) \<or> (48 \<le> c \<and> c \<le> 57)
     \<or> c = 38 \<or> c = 46 \<or> c = 45)"

definition COMPANY_PATTERN :: rx where
  "COMPANY_PATTERN =
     seqs [WordB, Sym (\<lambda>c. 65 \<le> c \<and> c \<le> 90),
           Sym company_chr, Sym company_chr, Star (Sym company_chr), WordB,
           spc,
           alts [lit ''Inc'', lit ''LLC'', lit ''Ltd'', lit ''SAS'', lit ''GmbH'', lit ''SARL'',
                 lit ''AG''],
           WordB]"

definition client_cues :: "ustr list" where
  "client_cues = map ascii
     [''client'', ''customer'', ''customers'', ''clients'', ''smb'', ''realtor'', ''realtors'',
      ''law firm'', ''lawyer'', ''attorney'', ''restaurant'', ''ecom'', ''saas'', ''agency'',
      ''agencies'']"

definition market_points :: "ustr \<Rightarrow> int" where
  "market_points body =
     (let has_niche = (find_niche body \<noteq> []);
          pts = (if has_niche then 10 else 0);
          named = (text_has_any body client_cues \<or> search COMPANY_PATTERN body \<noteq> None)
      in pts + (if named then 10 else 0))"

definition stack_points :: "ustr \<Rightarrow> ustr \<Rightarrow> int" where
  "stack_points body title =
     (let merged = lower (body @ [32] @ title);
          hits = filter (\<lambda>s. str_in s merged) SERVICE_CUES
      in min 15 (3 * int (length (remdups hits))))"

definition sentiment_points :: "ustr \<Rightarrow> int" where
  "sentiment_points body =
     (let t = lower body
      in if text_has_any t FAIL_CUES then - 999
         else if text_has_any t SUCCESS_CUES then 10
         else if text_has_any t DOUBT_CUES then 5
         else 7)"

definition compute_score_v2 ::
  "ustr \<Rightarrow> ustr \<Rightarrow> rmatch \<Rightarrow> ustr option \<Rightarrow> ustr option \<Rightarrow> int" where
  "compute_score_v2 body submission_title rev_match currency unit_t =
     (let base = 25;
          currency_pts = (if (currency \<noteq> None \<and> currency \<noteq> Some []) \<or> has_currency_code body
                          then 5 else 0);
          period = detect_period unit_t body;
          period_pts = period_points period;
          precision_pts = precision_points body (group0 rev_match);
          revenue_pts = base + currency_pts + period_pts + precision_pts;
          market_pts = market_points body;
          stack_pts = stack_points body submission_title;
          sent = sentiment_points body
      in if sent < 0 then 0
         else max 0 (min 100 (revenue_pts + market_pts + stack_pts + sent)))"


subsection \<open>Evidence records, the scrape loop, selection and ranking\<close>

record Evidence =
  subreddit :: ustr
  thread_title :: ustr
  thread_url :: ustr
  comment_url :: ustr
  author :: ustr
  post :: ustr
  score :: int

text \<open>
  What the source reads of a fetched comment and of its thread. \<open>c_body\<close> is \<open>None\<close>
  for an object without a \<open>body\<close> attribute, \<open>c_author\<close> is \<open>None\<close> for a deleted
  author; the subreddit is given by its display name.
\<close>

record comment =
  c_id :: ustr
  c_body :: "ustr option"
  c_permalink :: ustr
  c_author :: "ustr option"

record submission =
  s_title :: ustr
  s_permalink :: ustr

definition extract_evidence :: "ustr \<Rightarrow> submission \<Rightarrow> comment \<Rightarrow> Evidence option" where
  "extract_evidence sr sub c =
     (let body = or_empty (c_body c)
      in if body = [] then None
         else case search REVENUE_PATTERNS body of
                None \<Rightarrow> None
              | Some rev_match \<Rightarrow>
                  (case normalize_revenue rev_match of
                     (value, currency, period, rev_text) \<Rightarrow>
                       (let unit_t = m_group rev_match ''unit'';
                            sc = compute_score_v2 body (s_title sub) rev_match currency unit_t
                        in Some \<lparr>subreddit = sr,
                                 thread_title = s_title sub,
                                 thread_url = ascii ''https://www.reddit.com'' @ s_permalink sub,
                                 comment_url = ascii ''https://www.reddit.com'' @ c_permalink c,
                                 author = (case c_author c of None \<Rightarrow> ascii ''[deleted]''
                                           | Some a \<Rightarrow> a),
                                 post = strip body,
                                 score = sc\<rparr>)))"

text \<open>
  \<open>run_scrape\<close> over what the retrieval returned: for each thread reference the
  subreddit name and either the fetched submission with its comments or \<open>None\<close> when
  \<open>fetch_comments\<close> raised (the thread is then skipped with a warning). The state of
  the loop is the set \<open>seen_comments\<close> and the list \<open>evidences\<close>.
\<close>

fun scrape_comments ::
  "ustr \<Rightarrow> submission \<Rightarrow> comment list \<Rightarrow> ustr set \<times> Evidence list \<Rightarrow> ustr set \<times> Evidence list" where
  "scrape_comments sr sub [] st = st"
| "scrape_comments sr sub (c # cs) (seen_comments, evidences) =
     (if c_id c \<in> seen_comments then scrape_comments sr sub cs (seen_comments, evidences)
      else case extract_evidence sr sub c of
             Some ev \<Rightarrow> scrape_comments sr sub cs (insert (c_id c) seen_comments, evidences @ [ev])
           | None \<Rightarrow> scrape_comments sr sub cs (insert (c_id c) seen_comments, evidences))"

fun scrape_threads ::
  "(ustr \<times> (submission \<times> comment list) option) list \<Rightarrow> ustr set \<times> Evidence list
     \<Rightarrow> ustr set \<times> Evidence list" where
  "scrape_threads [] st = st"
| "scrape_threads ((sub_name, None) # ts) st = scrape_threads ts st"
| "scrape_threads ((sub_name, Some (sub, comments)) # ts) st =
     scrape_threads ts (scrape_comments sub_name sub comments st)"

definition run_scrape :: "(ustr \<times> (submission \<times> comment list) option) list \<Rightarrow> Evidence list" where
  "run_scrape threads = snd (scrape_threads threads ({}, []))"

text \<open>
  The main block: \<open>{r.comment_url: r for r in rows}.values()\<close> is a dictionary built
  in the order of the rows. A dictionary keeps its keys in the order in which they were
  first inserted, and a later value for a key replaces the earlier one in place.
\<close>

fun dict_set :: "('k \<times> 'v) list \<Rightarrow> 'k \<Rightarrow> 'v \<Rightarrow> ('k \<times> 'v) list" where
  "dict_set [] k v = [(k, v)]"
| "dict_set ((k', v') # d) k v = (if k' = k then (k, v) # d else (k', v') # dict_set d k v)"

definition dedup :: "Evidence list \<Rightarrow> Evidence list" where
  "dedup rows = map snd (foldl (\<lambda>d r. dict_set d (comment_url r) r) [] rows)"

text \<open>\<open>uniq.sort(key=lambda r: (-r.score, r.subreddit.lower(), r.thread_title.lower()))\<close>:
  Python's sort is stable, and so is \<open>sort_key\<close>; tuples and strings compare
  lexicographically.\<close>

definition rank_key :: "Evidence \<Rightarrow> int \<times> ustr \<times> ustr" where
  "rank_key r = (- score r, lower (subreddit r), lower (thread_title r))"

definition select_and_rank :: "Evidence list \<Rightarrow> Evidence list" where
  "select_and_rank rows = sort_key rank_key (dedup rows)"

section \<open>run.py: the keyword score (Strategy A)\<close>

text \<open>
  \<^verbatim>\<open>(?:(?P<currency>[$ euro pound])\s*)?(?P<number>...)\s*\<close>
  \<^verbatim>\<open>(?P<suffix>[kKmMbB]|million|millions|thousand|k)?\s*\<close>
  \<^verbatim>\<open>(?P<per>/\s*(?:h|hr|hour|day|week|mo|month|yr|year|\<close>
  \<^verbatim>\<open>per\s*(?:hour|day|week|month|year)))?\<close>
\<close>

definition RE_MONEY :: rx where
  "RE_MONEY =
     seqs [Opt (Seq (Grp ''currency'' (cls [36, 8364, 163])) (Star spc)),
           Grp ''number'' number_rx,
           Star spc,
           Opt (Grp ''suffix'' (alts [cls (ascii ''kKmMbB''), lit ''million'', lit ''millions'',
                                      lit ''thousand'', lit ''k''])),
           Star spc,
           Opt (Grp ''per''
                  (seqs [rx_chr 47, Star spc,
                         alts [lit ''h'', lit ''hr'', lit ''hour'', lit ''day'', lit ''week'',
                               lit ''mo'', lit ''month'', lit ''yr'', lit ''year'',
                               seqs [lit ''per'', Star spc,
                                     alts [lit ''hour'', lit ''day'', lit ''week'', lit ''month'',
                                           lit ''year'']]]]))]"

text \<open>The other quantitative patterns; all but the last are compiled with \<open>re.I\<close>.
  \<^verbatim>\<open>\b\d{1,4}(?:[.,]\d+)?\s*(?:hours?|hrs?|h|days?|d|weeks?|w|months?|mos?|mo|years?|yrs?)\b\<close>
  \<^verbatim>\<open>\b\d{1,4}(?:[.,]\d+)?\s*(?:per|/)\s*(?:hour|hr|day|week|month|mo|year|yr)s?\b\<close>
  \<^verbatim>\<open>\b\d{1,4}\s*(?:clients?|customers?|users?|leads?|emails?|meetings?|calls?|tickets?|demos?)\b\<close>
  \<^verbatim>\<open>\b\d{1,3}(?:[.,]\d+)?\s*%\b\<close>\<close>

definition RE_DURATION :: rx where
  "RE_DURATION =
     seqs [WordB, rep_range 1 4 dig, Opt (Seq (cls (ascii ''.,'')) (rx_plus dig)), Star spc,
           alts [Seq (litI ''hour'') (Opt (litI ''s'')), Seq (litI ''hr'') (Opt (litI ''s'')),
                 litI ''h'', Seq (litI ''day'') (Opt (litI ''s'')), litI ''d'',
                 Seq (litI ''week'') (Opt (litI ''s'')), litI ''w'',
                 Seq (litI ''month'') (Opt (litI ''s'')), Seq (litI ''mo'') (Opt (litI ''s'')),
                 litI ''mo'', Seq (litI ''year'') (Opt (litI ''s'')),
                 Seq (litI ''yr'') (Opt (litI ''s''))],
           WordB]"

definition RE_RATE :: rx where
  "RE_RATE =
     seqs [WordB, rep_range 1 4 dig, Opt (Seq (cls (ascii ''.,'')) (rx_plus dig)), Star spc,
           Alt (litI ''per'') (rx_chr 47), Star spc,
           alts [litI ''hour'', litI ''hr'', litI ''day'', litI ''week'', litI ''month'', litI ''mo'',
                 litI ''year'', litI ''yr''],
           Opt (litI ''s''), WordB]"

definition RE_COUNT :: rx where
  "RE_COUNT =
     seqs [WordB, rep_range 1 4 dig, Star spc,
           alts [Seq (litI ''client'') (Opt (litI ''s'')), Seq (litI ''customer'') (Opt (litI ''s'')),
                 Seq (litI ''user'') (Opt (litI ''s'')), Seq (litI ''lead'') (Opt (litI ''s'')),
                 Seq (litI ''email'') (Opt (litI ''s'')), Seq (litI ''meeting'') (Opt (litI ''s'')),
                 Seq (litI ''call'') (Opt (litI ''s'')), Seq (litI ''ticket'') (Opt (litI ''s'')),
                 Seq (litI ''demo'') (Opt (litI ''s''))],
           WordB]"

definition RE_PERCENT :: rx where
  "RE_PERCENT =
     seqs [WordB, rep_range 1 3 dig, Opt (Seq (cls (ascii ''.,'')) (rx_plus dig)), Star spc,
           rx_chr 37, WordB]"

definition KEYWORDS_SELL :: "ustr list" where
  "KEYWORDS_SELL = map ascii
     [''client'', ''clients'', ''customer'', ''customers'', ''sold'', ''selling'', ''sell'',
      ''paying'', ''paid'', ''charge'', ''charged'', ''pricing'', ''price'', ''subscription'',
      ''contract'', ''invoice'', ''retainer'', ''freelance'', ''agency'', ''MRR'', ''ARR'']"

definition KEYWORDS_AGENT :: "ustr list" where
  "KEYWORDS_AGENT = map ascii
     [''agent'', ''ai agent'', ''automation'', ''autonomous'', ''bot'', ''assistant'',
      ''workflow'', ''rpa'', ''gpt'', ''langchain'', ''autogen'']"

definition MARKET_HINTS :: "ustr list" where
  "MARKET_HINTS = map ascii
     [''ecom'', ''e-commerce'', ''shopify'', ''woocommerce'', ''amazon seller'', ''smb'',
      ''dentists'', ''lawyers'', ''real estate'', ''realtors'', ''restaurants'',
      ''plumbers'', ''roofers'', ''contractors'', ''saas'', ''startups'', ''enterprise'',
      ''agencies'', ''healthcare'', ''doctors'', ''clinics'', ''education'', ''coaches'',
      ''course creators'', ''marketing'', ''sales'', ''support'', ''customer support'',
      ''helpdesk'', ''hotel'', ''hospitality'', ''travel'', ''logistics'']"

definition NARRATIVE_CUES :: "ustr list" where
  "NARRATIVE_CUES = map ascii
     ['' we '', '' i '', '' my '', '' our '', ''case study'', ''story'']"

text \<open>\<open>has_quantitative\<close> returns the flag and the matched texts by category.\<close>

record quantitative =
  q_money :: "ustr list"
  q_duration :: "ustr list"
  q_rate :: "ustr list"
  q_count :: "ustr list"
  q_percent :: "ustr list"

definition has_quantitative :: "ustr \<Rightarrow> bool \<times> quantitative" where
  "has_quantitative text =
     (let money = map group0 (finditer RE_MONEY text);
          duration = map group0 (finditer RE_DURATION text);
          rate = map group0 (finditer RE_RATE text);
          count = map group0 (finditer RE_COUNT text);
          percent = map group0 (finditer RE_PERCENT text);
          any_num = (money \<noteq> [] \<or> duration \<noteq> [] \<or> rate \<noteq> [] \<or> count \<noteq> [] \<or> percent \<noteq> [])
      in (any_num, \<lparr>q_money = money, q_duration = duration, q_rate = rate, q_count = count,
                    q_percent = percent\<rparr>))"

text \<open>\<open>score_comment\<close> returns the score and the details (money spans, markets found);
  the list of reasons it builds is not returned by the source either.\<close>

definition score_comment :: "ustr \<Rightarrow> int \<times> ustr list \<times> ustr list" where
  "score_comment body =
     (let text = lower body;
          score0 = (0::int);
          score1 = (if any_in KEYWORDS_SELL text then score0 + 2 else score0);
          score2 = (if any_in KEYWORDS_AGENT text then score1 + 2 else score1);
          money_matches = finditer RE_MONEY text;
          score3 = (if money_matches \<noteq> [] then score2 + min 3 (int (length money_matches))
                    else score2);
          markets = filter (\<lambda>m. str_in m text) MARKET_HINTS;
          score4 = (if markets \<noteq> [] then score3 + 1 else score3);
          score5 = (if any_in NARRATIVE_CUES text then score4 + 1 else score4)
      in (score5, map group0 money_matches, markets))"

text \<open>
  The value of a money match as \<open>normalize_money\<close> and \<open>extract_best_money\<close> both
  compute it: the numeric group without its commas and blanks, through \<open>float\<close>
  (\<open>None\<close> when that raises), times the suffix.
\<close>

definition money_number :: "rmatch \<Rightarrow> ustr" where
  "money_number m = replace_chr 32 [] (replace_chr 44 [] (or_empty (m_group m ''number'')))"

definition apply_suffix :: "ustr option \<Rightarrow> rat \<Rightarrow> rat" where
  "apply_suffix suf val =
     (case suf of
        None \<Rightarrow> val
      | Some sf \<Rightarrow>
          if sf \<noteq> [] \<and> prefix (ascii ''m'') (lower sf) then val * 1000000
          else if sf \<noteq> [] \<and> (prefix (ascii ''k'') (lower sf) \<or> str_in (ascii ''thousand'') (lower sf))
          then val * 1000
          else val)"

text \<open>
  The text of the amount: \<open>int(val)\<close> when the value is whole, \<open>round(val, 2)\<close>
  otherwise, as Python prints them. The value is never negative. \<open>round\<close> is taken on
  the exact value (half to even); on the binary float of the source a tie at the third
  decimal can fall the other way.
\<close>

function show_nat :: "int \<Rightarrow> ustr" where
  "show_nat n = (if n < 10 then [48 + n] else show_nat (n div 10) @ [48 + n mod 10])"
  by pat_completeness auto
termination
  by (relation "measure nat") auto

definition round_half_even :: "rat \<Rightarrow> int" where
  "round_half_even x =
     (let f = \<lfloor>x\<rfloor>; r = x - of_int f
      in if r < 1 / 2 then f else if 1 / 2 < r then f + 1 else if even f then f else f + 1)"

definition show_amount :: "rat \<Rightarrow> ustr" where
  "show_amount val =
     (if of_int \<lfloor>val\<rfloor> = val then show_nat \<lfloor>val\<rfloor>
      else let q = round_half_even (val * 100)
           in show_nat (q div 100) @ [46]
              @ (if q mod 10 = 0 then [48 + (q mod 100) div 10]
                 else [48 + (q mod 100) div 10, 48 + q mod 10]))"

definition normalize_money :: "ustr \<Rightarrow> ustr option" where
  "normalize_money token =
     (case search RE_MONEY (lower token) of
        None \<Rightarrow> None
      | Some m \<Rightarrow>
          (case py_float (money_number m) of
             None \<Rightarrow> Some token
           | Some v \<Rightarrow>
               (let suf = m_group m ''suffix'';
                    currency = or_empty (m_group m ''currency'');
                    per = m_group m ''per'';
                    val = apply_suffix suf v;
                    base = currency @ show_amount val
                in case per of
                     None \<Rightarrow> Some base
                   | Some p \<Rightarrow> if p = [] then Some base
                               else Some (base @ [32] @ strip (replace_chr 47 [] p)))))"

text \<open>The loop of \<open>extract_best_money\<close> over the spans, with its state (best, best\_val).\<close>

fun best_scan :: "ustr list \<Rightarrow> ustr option \<times> rat \<Rightarrow> ustr option \<times> rat" where
  "best_scan [] st = st"
| "best_scan (tok # toks) (best, best_val) =
     (case search RE_MONEY (lower tok) of
        None \<Rightarrow> best_scan toks (best, best_val)
      | Some m \<Rightarrow>
          (case py_float (money_number m) of
             None \<Rightarrow> best_scan toks (best, best_val)
           | Some v \<Rightarrow>
               (let val = apply_suffix (m_group m ''suffix'') v
                in if best_val < val then best_scan toks (Some tok, val)
                   else best_scan toks (best, best_val))))"

definition extract_best_money :: "ustr list \<Rightarrow> ustr option" where
  "extract_best_money money_spans =
     (if money_spans = [] then None
      else case fst (best_scan money_spans (None, - 1)) of
             None \<Rightarrow> None
           | Some best \<Rightarrow> if best = [] then None else normalize_money best)"

text \<open>
  The comment loop of \<open>main\<close>. A comment is given by its unescaped body and the
  fields the row copies; of the row, the fields that only restate the details as display
  text (reasons, quantitative evidence, target market) are left out.
\<close>

record a_comment =
  a_body :: ustr
  a_id :: ustr
  a_author :: ustr
  a_ups :: "int option"
  a_permalink :: ustr

record row =
  r_score :: int
  r_extracted_revenue :: ustr
  r_comment_id :: ustr
  r_author :: ustr
  r_ups :: "int option"
  r_permalink :: ustr
  r_body :: ustr

fun main_rows :: "bool \<Rightarrow> int \<Rightarrow> a_comment list \<Rightarrow> row list" where
  "main_rows allow_no_numbers min_score [] = []"
| "main_rows allow_no_numbers min_score (c # cs) =
     (let body = a_body c
      in if strip body = [] then main_rows allow_no_numbers min_score cs
         else if \<not> allow_no_numbers \<and> \<not> fst (has_quantitative body)
         then main_rows allow_no_numbers min_score cs
         else case score_comment body of
                (sc, money_spans, markets_found) \<Rightarrow>
                  if sc < min_score then main_rows allow_no_numbers min_score cs
                  else \<lparr>r_score = sc,
                        r_extracted_revenue = or_empty (extract_best_money money_spans),
                        r_comment_id = a_id c,
                        r_author = a_author c,
                        r_ups = a_ups c,
                        r_permalink = ascii ''https://www.reddit.com'' @ a_permalink c,
                        r_body = body\<rparr>
                       # main_rows allow_no_numbers min_score cs)"

text \<open>\<open>sorted(rows, key=lambda x: (-x["score"], -(x["ups"] or 0)))\<close>\<close>

definition row_key :: "row \<Rightarrow> int \<times> int" where
  "row_key x = (- r_score x, - (case r_ups x of None \<Rightarrow> 0 | Some u \<Rightarrow> u))"

definition ranked_rows :: "row list \<Rightarrow> row list" where
  "ranked_rows rows = sort_key row_key rows"


section \<open>Sample inputs\<close>

text \<open>Scenario 1 and scenario 3 of the specification, as a comment of a thread.\<close>

definition scenario1_body :: ustr where
  "scenario1_body = ascii ''I charge clients $2k/month for my AI agent, 5 clients so far''"

definition scenario3_body :: ustr where
  "scenario3_body = ascii ''We made about 10k-15k per month but it failed and we got no sales''"

definition sample_thread :: submission where
  "sample_thread = \<lparr>s_title = ascii ''Selling AI agents'', s_permalink = ascii ''/r/SaaS/comments/t1/''\<rparr>"

definition sample_comment :: "ustr \<Rightarrow> ustr \<Rightarrow> comment" where
  "sample_comment ident body =
     \<lparr>c_id = ident, c_body = Some body,
      c_permalink = ascii ''/r/SaaS/comments/t1/x/'' @ ident @ ascii ''/'',
      c_author = Some (ascii ''alice'')\<rparr>"

section \<open>Properties of the weighted score\<close>

lemma lower_lower: "lower (lower s) = lower s"
  by (induction s) (auto simp: lower_def lower1_def)

lemma lower_append: "lower (a @ b) = lower a @ lower b"
  by (simp add: lower_def)

lemma str_in_run: "str_in (lower mid) (lower (pre @ mid @ rest))"
  unfolding str_in_def lower_append by (rule sublist_appendI)

lemma any_in_member: "c \<in> set cues \<Longrightarrow> str_in c t \<Longrightarrow> any_in cues t"
  by (auto simp: any_in_def list_ex_iff)

lemma period_points_range: "0 \<le> period_points p \<and> period_points p \<le> 15"
  by (simp add: period_points_def)

lemma precision_points_range: "5 \<le> precision_points b r \<and> precision_points b r \<le> 10"
  by (simp add: precision_points_def Let_def)

lemma market_points_range: "0 \<le> market_points b \<and> market_points b \<le> 20"
  by (simp add: market_points_def Let_def)

lemma stack_points_range: "0 \<le> stack_points b t \<and> stack_points b t \<le> 15"
  by (simp add: stack_points_def Let_def)

lemma sentiment_points_no_failure:
  "\<not> text_has_any (lower b) FAIL_CUES \<Longrightarrow> 5 \<le> sentiment_points b \<and> sentiment_points b \<le> 10"
  by (simp add: sentiment_points_def Let_def)

text \<open>
  Claim C1. A comment body in which a failure cue occurs, in any letter case, as a
  contiguous run (the body is \<open>pre @ mid @ rest\<close> and \<open>mid\<close> lowers to the cue) is
  scored exactly 0 by \<open>compute_score_v2\<close>, whatever the title, the money match, the
  currency and the unit are, and whatever else the body holds.
\<close>

theorem failure_cue_forces_zero:
  assumes "cue \<in> set FAIL_CUES" and "lower mid = cue"
  shows "compute_score_v2 (pre @ mid @ rest) title rev_match currency unit_t = 0"
proof -
  let ?body = "pre @ mid @ rest"
  have "str_in cue (lower (lower ?body))"
    using assms(2) str_in_run [of mid pre rest] by (simp add: lower_lower)
  with assms(1) have "text_has_any (lower ?body) FAIL_CUES"
    unfolding text_has_any_def by (rule any_in_member)
  then have "sentiment_points ?body = - 999"
    by (simp add: sentiment_points_def Let_def)
  then show ?thesis
    by (simp add: compute_score_v2_def Let_def)
qed

theorem failure_cue_forces_zero_witness:
  "ascii ''failed'' \<in> set FAIL_CUES \<and> lower (ascii ''FAILED'') = ascii ''failed''
   \<and> compute_score_v2
        (ascii ''We made about 10k-15k per month but it '' @ ascii ''FAILED''
           @ ascii '' and we got no sales'')
        (ascii ''Selling AI agents'')
        \<lparr>m_string = ascii ''We made about 10k-15k per month but it FAILED and we got no sales'',
          m_start = 13, m_end = 17,
          m_caps = [(''mult'', 16, 17), (''amount'', 14, 16), (''currency'', 13, 13)]\<rparr>
        None None = 0"
proof -
  have h1: "ascii ''failed'' \<in> set FAIL_CUES" by code_simp
  have h2: "lower (ascii ''FAILED'') = ascii ''failed''" by code_simp
  show ?thesis
    using h1 h2 failure_cue_forces_zero [OF h1 h2] by simp
qed

text \<open>
  Claim C10. \<open>compute_score_v2\<close> returns either 0 or a value from 35 to 100; without a
  failure cue in the body it returns at least 25 + 5 + 5 (base, least precision points,
  least sentiment points); so the score of an evidence record that \<open>extract_evidence\<close>
  builds is never strictly between 0 and 35.
\<close>

theorem score_v2_zero_or_35_to_100:
  "(compute_score_v2 body title rev_match currency unit_t = 0
      \<or> (35 \<le> compute_score_v2 body title rev_match currency unit_t
          \<and> compute_score_v2 body title rev_match currency unit_t \<le> 100))
   \<and> (\<not> text_has_any (lower body) FAIL_CUES \<longrightarrow>
        25 + 5 + 5 \<le> compute_score_v2 body title rev_match currency unit_t)
   \<and> (\<forall>ev. extract_evidence sr sub c = Some ev \<longrightarrow> \<not> (0 < score ev \<and> score ev < 35))"
proof -
  have range: "compute_score_v2 b t m cu u = 0
      \<or> (35 \<le> compute_score_v2 b t m cu u \<and> compute_score_v2 b t m cu u \<le> 100)" for b t m cu u
  proof (cases "text_has_any (lower b) FAIL_CUES")
    case True
    then show ?thesis by (simp add: compute_score_v2_def sentiment_points_def Let_def)
  next
    case False
    with sentiment_points_no_failure [of b]
    have s: "5 \<le> sentiment_points b" "sentiment_points b \<le> 10" by simp_all
    show ?thesis
      using s period_points_range [of "detect_period u b"]
        precision_points_range [of b "group0 m"] market_points_range [of b]
        stack_points_range [of b t]
      by (simp add: compute_score_v2_def Let_def)
  qed
  have low: "25 + 5 + 5 \<le> compute_score_v2 body title rev_match currency unit_t"
    if "\<not> text_has_any (lower body) FAIL_CUES"
  proof -
    from that sentiment_points_no_failure [of body]
    have s: "5 \<le> sentiment_points body" "sentiment_points body \<le> 10" by simp_all
    show ?thesis
      using s period_points_range [of "detect_period unit_t body"]
        precision_points_range [of body "group0 rev_match"] market_points_range [of body]
        stack_points_range [of body title]
      by (simp add: compute_score_v2_def Let_def)
  qed
  have ev: "\<not> (0 < score ev \<and> score ev < 35)" if "extract_evidence sr sub c = Some ev" for ev
  proof -
    from that obtain b t m cu u where "score ev = compute_score_v2 b t m cu u"
      by (auto simp: extract_evidence_def Let_def split: if_splits option.splits prod.splits)
    with range [of b t m cu u] show ?thesis by auto
  qed
  from range low ev show ?thesis by blast
qed

theorem score_v2_zero_or_35_to_100_witness:
  "\<not> text_has_any (lower scenario1_body) FAIL_CUES
   \<and> 25 + 5 + 5 \<le> compute_score_v2 scenario1_body (s_title sample_thread)
        \<lparr>m_string = scenario1_body, m_start = 17, m_end = 26,
          m_caps = [(''unit'', 20, 26), (''mult'', 19, 20), (''amount'', 18, 19),
                    (''currency'', 17, 18)]\<rparr> (Some (ascii ''USD'')) (Some (ascii ''/month''))
   \<and> extract_evidence (ascii ''SaaS'') sample_thread (sample_comment (ascii ''c1'') scenario1_body)
       = Some \<lparr>subreddit = ascii ''SaaS'', thread_title = ascii ''Selling AI agents'',
               thread_url = ascii ''https://www.reddit.com/r/SaaS/comments/t1/'',
               comment_url = ascii ''https://www.reddit.com/r/SaaS/comments/t1/x/c1/'',
               author = ascii ''alice'', post = scenario1_body, score = 82\<rparr>
   \<and> \<not> (0 < (82::int) \<and> (82::int) < 35)"
proof -
  have h1: "\<not> text_has_any (lower scenario1_body) FAIL_CUES" by code_simp
  have h2: "extract_evidence (ascii ''SaaS'') sample_thread
              (sample_comment (ascii ''c1'') scenario1_body)
       = Some \<lparr>subreddit = ascii ''SaaS'', thread_title = ascii ''Selling AI agents'',
               thread_url = ascii ''https://www.reddit.com/r/SaaS/comments/t1/'',
               comment_url = ascii ''https://www.reddit.com/r/SaaS/comments/t1/x/c1/'',
               author = ascii ''alice'', post = scenario1_body, score = 82\<rparr>"
    by code_simp
  show ?thesis
    using h1 h2
      score_v2_zero_or_35_to_100 [of scenario1_body "s_title sample_thread"
        "\<lparr>m_string = scenario1_body, m_start = 17, m_end = 26,
          m_caps = [(''unit'', 20, 26), (''mult'', 19, 20), (''amount'', 18, 19),
                    (''currency'', 17, 18)]\<rparr>" "Some (ascii ''USD'')" "Some (ascii ''/month'')"
        "ascii ''SaaS''" sample_thread "sample_comment (ascii ''c1'') scenario1_body"]
    by simp
qed


section \<open>Properties of the monetary normalizers\<close>

text \<open>
  The amount that \<open>normalize_revenue\<close> gives for the money match of a text, and the
  tokens whose numeric literal \<open>float\<close> rejects in \<open>normalize_money\<close> and
  \<open>extract_best_money\<close>.
\<close>

definition revenue_amount :: "ustr \<Rightarrow> rat option" where
  "revenue_amount s =
     (case search REVENUE_PATTERNS s of None \<Rightarrow> None | Some m \<Rightarrow> fst (normalize_revenue m))"

definition unparsable_literal :: "ustr \<Rightarrow> bool" where
  "unparsable_literal tok =
     (case search RE_MONEY (lower tok) of
        None \<Rightarrow> False
      | Some m \<Rightarrow> py_float (money_number m) = None)"

lemma str_in_single: "str_in [c] s = (c \<in> set s)"
proof
  assume "str_in [c] s"
  then obtain ps ss where "s = ps @ [c] @ ss" by (auto simp: str_in_def sublist_def)
  then show "c \<in> set s" by simp
next
  assume "c \<in> set s"
  then obtain ps ss where "s = ps @ c # ss" by (auto simp: in_set_conv_decomp)
  then show "str_in [c] s" by (auto simp: str_in_def sublist_def)
qed

lemma dropWhile_none: "\<forall>c\<in>set s. \<not> P c \<Longrightarrow> dropWhile P s = s"
  by (cases s) auto

lemma strip_id: "\<forall>c\<in>set s. \<not> is_space c \<Longrightarrow> strip s = s"
  by (simp add: strip_def dropWhile_none)

lemma replace_chr_id: "c \<notin> set s \<Longrightarrow> replace_chr c new s = s"
  by (induction s) (auto simp: replace_chr_def)

lemma replace_chr_append: "replace_chr c new (xs @ ys) = replace_chr c new xs @ replace_chr c new ys"
  by (simp add: replace_chr_def)

lemma replace_chr_Cons:
  "replace_chr c new (x # xs) = (if x = c then new else [x]) @ replace_chr c new xs"
  by (simp add: replace_chr_def)

lemma rfind_chr_absent: "c \<notin> set s \<Longrightarrow> rfind_chr s c = - 1"
  by (induction s) (auto simp: Let_def)

lemma rfind_chr_less: "rfind_chr s c < int (length s)"
  by (induction s) (auto simp: Let_def)

lemma rfind_chr_append_absent: "c \<notin> set ys \<Longrightarrow> rfind_chr (xs @ ys) c = rfind_chr xs c"
  by (induction xs) (auto simp: Let_def rfind_chr_absent)

lemma rfind_chr_last: "c \<notin> set ys \<Longrightarrow> rfind_chr (xs @ c # ys) c = int (length xs)"
  by (induction xs) (auto simp: Let_def rfind_chr_absent)

lemma digit_facts: "is_digit c \<Longrightarrow> c \<noteq> 46 \<and> c \<noteq> 44 \<and> c \<noteq> 32 \<and> c \<noteq> 8217 \<and> c \<noteq> 729 \<and> \<not> is_space c"
  unfolding is_digit_def is_space_def by arith

lemma separator_facts: "c = 44 \<or> c = 46 \<Longrightarrow> c \<noteq> 32 \<and> c \<noteq> 8217 \<and> c \<noteq> 729 \<and> \<not> is_space c"
  unfolding is_space_def by arith

lemma literal_chars:
  assumes "list_all (\<lambda>c. is_digit c \<or> c = 44 \<or> c = 46) s"
  shows "strip s = s \<and> 32 \<notin> set s \<and> 8217 \<notin> set s \<and> 729 \<notin> set s"
proof -
  have each: "c \<noteq> 32 \<and> c \<noteq> 8217 \<and> c \<noteq> 729 \<and> \<not> is_space c" if "c \<in> set s" for c
  proof -
    from assms that have "is_digit c \<or> (c = 44 \<or> c = 46)" by (auto simp: list_all_iff)
    then show ?thesis using digit_facts [of c] separator_facts [of c] by blast
  qed
  then have "strip s = s" by (intro strip_id) blast
  with each show ?thesis by blast
qed

lemma literal_pre:
  assumes "list_all (\<lambda>c. is_digit c \<or> c = 44 \<or> c = 46) s"
  shows "replace_chr 729 [46] (replace_chr 8217 [] (replace_chr 32 [] (strip s))) = s"
  using literal_chars [OF assms] by (simp add: replace_chr_id)

lemma py_float_decimal:
  assumes "list_all is_digit d" and "list_all is_digit b" and "d @ b \<noteq> []"
  shows "py_float (d @ [46] @ b) = Some (of_int (digits_val d) + of_int (digits_val b) / 10 ^ length b)"
proof -
  have nd: "\<forall>c\<in>set d. c \<noteq> 46" using assms(1) digit_facts by (auto simp: list_all_iff)
  have tw: "takeWhile (\<lambda>c. c \<noteq> 46) (d @ [46] @ b) = d"
    using nd by (simp add: takeWhile_append2)
  have dw: "dropWhile (\<lambda>c. c \<noteq> 46) (d @ [46] @ b) = 46 # b"
    using nd by (simp add: dropWhile_append2)
  show ?thesis
    unfolding py_float_def tw dw Let_def using assms by simp
qed

lemma to_float_both:
  assumes sep: "sep = 44 \<or> sep = 46"
    and a: "list_all (\<lambda>c. is_digit c \<or> c = 44 \<or> c = 46) a"
    and b: "list_all is_digit b"
    and both: "44 \<in> set (a @ [sep]) \<and> 46 \<in> set (a @ [sep])"
    and ne: "filter is_digit a @ b \<noteq> []"
  shows "to_float_amount (a @ [sep] @ b)
         = Some (of_int (digits_val (filter is_digit a)) + of_int (digits_val b) / 10 ^ length b)"
proof -
  let ?s = "a @ [sep] @ b"
  have "list_all (\<lambda>c. is_digit c \<or> c = 44 \<or> c = 46) ?s"
    using sep a b by (auto simp: list_all_iff)
  then have pre: "replace_chr 729 [46] (replace_chr 8217 [] (replace_chr 32 [] (strip ?s))) = ?s"
    by (rule literal_pre)
  have nb: "44 \<notin> set b" "46 \<notin> set b" using b digit_facts by (auto simp: list_all_iff)
  have in44: "str_in [44] ?s" and in46: "str_in [46] ?s"
    using both by (auto simp: str_in_single)
  have mx: "max (rfind_chr ?s 44) (rfind_chr ?s 46) = int (length a)"
  proof -
    from sep show ?thesis
    proof
      assume s44: "sep = 44"
      have "rfind_chr ?s 44 = int (length a)"
        using nb s44 rfind_chr_last [of 44 b a] by simp
      moreover have "rfind_chr ?s 46 = rfind_chr a 46"
        using nb s44 rfind_chr_append_absent [of 46 "[sep] @ b" a] by simp
      moreover have "rfind_chr a 46 < int (length a)" by (rule rfind_chr_less)
      ultimately show ?thesis by simp
    next
      assume s46: "sep = 46"
      have "rfind_chr ?s 46 = int (length a)"
        using nb s46 rfind_chr_last [of 46 b a] by simp
      moreover have "rfind_chr ?s 44 = rfind_chr a 44"
        using nb s46 rfind_chr_append_absent [of 44 "[sep] @ b" a] by simp
      moreover have "rfind_chr a 44 < int (length a)" by (rule rfind_chr_less)
      ultimately show ?thesis by simp
    qed
  qed
  have fl: "filter (\<lambda>c. c \<noteq> 46 \<and> c \<noteq> 44) a = filter is_digit a"
    using a digit_facts by (intro filter_cong) (auto simp: list_all_iff)
  have dg: "list_all is_digit (filter is_digit a)" by (simp add: list_all_iff)
  have tk: "take (length a) ?s = a" and dr: "drop (length a + 1) ?s = b" by simp_all
  have "to_float_amount ?s = py_float (filter is_digit a @ [46] @ b)"
    unfolding to_float_amount_def pre Let_def mx using in44 in46 by (simp add: fl)
  also have "\<dots> = Some (of_int (digits_val (filter is_digit a)) + of_int (digits_val b) / 10 ^ length b)"
    using dg b ne by (rule py_float_decimal)
  finally show ?thesis .
qed

lemma to_float_comma_only:
  assumes a: "list_all is_digit a" and b: "list_all is_digit b" and ne: "a @ b \<noteq> []"
  shows "to_float_amount (a @ [44] @ b)
         = Some (of_int (digits_val a) + of_int (digits_val b) / 10 ^ length b)"
proof -
  let ?s = "a @ [44] @ b"
  have "list_all (\<lambda>c. is_digit c \<or> c = 44 \<or> c = 46) ?s"
    using a b by (auto simp: list_all_iff)
  then have pre: "replace_chr 729 [46] (replace_chr 8217 [] (replace_chr 32 [] (strip ?s))) = ?s"
    by (rule literal_pre)
  have no: "44 \<notin> set a" "44 \<notin> set b" "46 \<notin> set a" "46 \<notin> set b"
    using a b digit_facts by (auto simp: list_all_iff)
  have ra: "replace_chr 44 [46] a = a" using no(1) by (rule replace_chr_id)
  have rb: "replace_chr 44 [46] b = b" using no(2) by (rule replace_chr_id)
  have rc: "replace_chr 44 [46] [44] = [46]" by (simp add: replace_chr_def)
  have rp: "replace_chr 44 [46] ?s = a @ [46] @ b"
    unfolding replace_chr_append ra rb rc ..
  have c44: "str_in [44] ?s" and c46: "\<not> str_in [46] ?s"
    using no by (simp_all add: str_in_single)
  have "to_float_amount ?s = py_float (a @ [46] @ b)"
    unfolding to_float_amount_def pre Let_def rp using c44 c46 by simp
  also have "\<dots> = Some (of_int (digits_val a) + of_int (digits_val b) / 10 ^ length b)"
    using a b ne by (rule py_float_decimal)
  finally show ?thesis .
qed

lemma best_scan_skip: "unparsable_literal tok \<Longrightarrow> best_scan (tok # toks) st = best_scan toks st"
  by (cases st) (auto simp: unparsable_literal_def split: option.splits)

lemma best_scan_filter:
  "best_scan (filter (\<lambda>t. \<not> unparsable_literal t) toks) st = best_scan toks st"
proof (induction toks arbitrary: st)
  case Nil
  show ?case by simp
next
  case (Cons tok toks)
  show ?case
  proof (cases "unparsable_literal tok")
    case True
    then show ?thesis using Cons.IH best_scan_skip by simp
  next
    case False
    obtain b v where st: "st = (b, v)" by (cases st)
    show ?thesis
      using False Cons.IH unfolding st
      by (auto simp: Let_def split: option.splits)
  qed
qed

lemma extract_best_money_filter:
  "extract_best_money (filter (\<lambda>t. \<not> unparsable_literal t) spans) = extract_best_money spans"
proof (cases "filter (\<lambda>t. \<not> unparsable_literal t) spans = []")
  case True
  then have "best_scan spans (None, - 1) = (None, - 1)"
    using best_scan_filter [of spans "(None, - 1)"] by simp
  with True show ?thesis by (simp add: extract_best_money_def)
next
  case False
  then have "spans \<noteq> []" by auto
  with False show ?thesis by (simp add: extract_best_money_def best_scan_filter)
qed

lemma normalize_money_unparsable: "unparsable_literal tok \<Longrightarrow> normalize_money tok = Some tok"
  by (auto simp: unparsable_literal_def normalize_money_def split: option.splits)

text \<open>
  Both money patterns read \<open>$1200.00\<close> as the amount 120: the first alternative of the
  numeric literal takes at most three digits and the rest of the pattern is optional, so
  the second alternative is never tried.
\<close>

lemma four_digits_without_grouping:
  "normalize_money (ascii ''$1200.00'') = Some (ascii ''$120'')
   \<and> revenue_amount (ascii ''$1200.00'') = Some 120"
  by code_simp

text \<open>
  Claim C2, as the code has it. \<open>normalize_money\<close> drops the commas, so \<open>$1,200\<close>
  gives 1200; \<open>normalize_revenue\<close> reads a lone comma as the decimal separator, so
  there \<open>$1,200\<close> gives 1.2; \<open>1.2k\<close> gives 1200 in both.
\<close>

theorem equivalent_amounts:
  "normalize_money (ascii ''$1,200'') = Some (ascii ''$1200'')
   \<and> normalize_money (ascii ''1.2k'') = Some (ascii ''1200'')
   \<and> revenue_amount (ascii ''1.2k'') = Some 1200
   \<and> revenue_amount (ascii ''$1,200'') = Some (6 / 5)"
  by code_simp

text \<open>The claim as stated fails: \<open>normalize_revenue\<close> does not give 1200 for
  \<open>$1,200\<close>.\<close>

theorem equivalent_amounts_counterexample:
  "revenue_amount (ascii ''$1,200'') = Some (6 / 5)
   \<and> revenue_amount (ascii ''$1,200'') \<noteq> Some 1200"
  by code_simp

text \<open>
  Claim C3, as the code has it. In \<open>_to_float_amount\<close>: when both separators occur
  in a literal of digits and separators, the digits after the last separator are the
  fraction and the digits before it, with every separator removed, are the whole part;
  a literal with one comma and no point has the comma as its decimal separator, so
  \<open>1,5\<close> is 1.5 and \<open>1,200\<close> is 1.2. \<open>normalize_money\<close> removes every comma
  instead: there \<open>1,5\<close> is 15.
\<close>

theorem decimal_separator_rules:
  "((sep = 44 \<or> sep = 46) \<and> list_all (\<lambda>c. is_digit c \<or> c = 44 \<or> c = 46) a
      \<and> list_all is_digit b \<and> 44 \<in> set (a @ [sep]) \<and> 46 \<in> set (a @ [sep])
      \<and> filter is_digit a @ b \<noteq> []
    \<longrightarrow> to_float_amount (a @ [sep] @ b)
         = Some (of_int (digits_val (filter is_digit a)) + of_int (digits_val b) / 10 ^ length b))
   \<and> (list_all is_digit a' \<and> list_all is_digit b' \<and> a' @ b' \<noteq> []
    \<longrightarrow> to_float_amount (a' @ [44] @ b')
         = Some (of_int (digits_val a') + of_int (digits_val b') / 10 ^ length b'))
   \<and> to_float_amount (ascii ''1,5'') = Some (3 / 2)
   \<and> to_float_amount (ascii ''1,200'') = Some (6 / 5)
   \<and> normalize_money (ascii ''1,5'') = Some (ascii ''15'')"
proof -
  have ex: "to_float_amount (ascii ''1,5'') = Some (3 / 2)
      \<and> to_float_amount (ascii ''1,200'') = Some (6 / 5)
      \<and> normalize_money (ascii ''1,5'') = Some (ascii ''15'')"
    by code_simp
  show ?thesis
    using to_float_both [of sep a b] to_float_comma_only [of a' b'] ex by blast
qed

theorem decimal_separator_rules_witness:
  "((44::int) = 44 \<or> (44::int) = 46)
   \<and> list_all (\<lambda>c. is_digit c \<or> c = 44 \<or> c = 46) (ascii ''1.234'')
   \<and> list_all is_digit (ascii ''56'')
   \<and> 44 \<in> set (ascii ''1.234'' @ [44]) \<and> 46 \<in> set (ascii ''1.234'' @ [44])
   \<and> filter is_digit (ascii ''1.234'') @ ascii ''56'' \<noteq> []
   \<and> to_float_amount (ascii ''1.234'' @ [44] @ ascii ''56'') = Some (30864 / 25)
   \<and> list_all is_digit (ascii ''1'') \<and> list_all is_digit (ascii ''5'')
   \<and> ascii ''1'' @ ascii ''5'' \<noteq> []
   \<and> to_float_amount (ascii ''1'' @ [44] @ ascii ''5'') = Some (3 / 2)"
proof -
  have h1: "((44::int) = 44 \<or> (44::int) = 46)
      \<and> list_all (\<lambda>c. is_digit c \<or> c = 44 \<or> c = 46) (ascii ''1.234'')
      \<and> list_all is_digit (ascii ''56'')
      \<and> 44 \<in> set (ascii ''1.234'' @ [44]) \<and> 46 \<in> set (ascii ''1.234'' @ [44])
      \<and> filter is_digit (ascii ''1.234'') @ ascii ''56'' \<noteq> []"
    by code_simp
  have h2: "list_all is_digit (ascii ''1'') \<and> list_all is_digit (ascii ''5'')
      \<and> ascii ''1'' @ ascii ''5'' \<noteq> []"
    by code_simp
  have v1: "Some (of_int (digits_val (filter is_digit (ascii ''1.234'')))
              + of_int (digits_val (ascii ''56'')) / 10 ^ length (ascii ''56''))
            = Some (30864 / 25 :: rat)"
    by code_simp
  have v2: "Some (of_int (digits_val (ascii ''1''))
              + of_int (digits_val (ascii ''5'')) / 10 ^ length (ascii ''5''))
            = Some (3 / 2 :: rat)"
    by code_simp
  show ?thesis
    using h1 h2 v1 v2
      decimal_separator_rules [of 44 "ascii ''1.234''" "ascii ''56''" "ascii ''1''" "ascii ''5''"]
    by simp
qed

text \<open>The claim as stated fails for \<open>normalize_money\<close>, which takes the comma of
  \<open>1,5\<close> for a thousands separator.\<close>

theorem decimal_separator_rules_counterexample:
  "normalize_money (ascii ''1,5'') = Some (ascii ''15'')
   \<and> normalize_money (ascii ''1,5'') \<noteq> Some (ascii ''1.5'')"
  by code_simp

text \<open>
  Claim C5, as the code has it. For a token whose numeric literal \<open>float\<close> rejects,
  \<open>normalize_money\<close> returns the token itself, unchanged (it returns \<open>None\<close> only
  for a token without a money match); \<open>extract_best_money\<close> skips such a token: the
  scan goes on with the other spans in the same state, and the result is the one the
  spans without the unparsable ones give. The functions return on every input.
\<close>

theorem unparsable_literal_is_skipped:
  "(unparsable_literal tok \<longrightarrow>
      normalize_money tok = Some tok \<and> best_scan (tok # toks) st = best_scan toks st)
   \<and> extract_best_money (filter (\<lambda>t. \<not> unparsable_literal t) spans) = extract_best_money spans"
  using normalize_money_unparsable [of tok] best_scan_skip [of tok toks st]
    extract_best_money_filter [of spans]
  by blast

theorem unparsable_literal_is_skipped_witness:
  "unparsable_literal (ascii ''1.234.567'')
   \<and> normalize_money (ascii ''1.234.567'') = Some (ascii ''1.234.567'')
   \<and> best_scan [ascii ''1.234.567'', ascii ''$2k''] (None, - 1)
       = best_scan [ascii ''$2k''] (None, - 1)
   \<and> extract_best_money [ascii ''1.234.567'', ascii ''$2k''] = Some (ascii ''$2000'')"
proof -
  have h: "unparsable_literal (ascii ''1.234.567'')" by code_simp
  have f: "filter (\<lambda>t. \<not> unparsable_literal t) [ascii ''1.234.567'', ascii ''$2k'']
           = [ascii ''$2k'']"
    by code_simp
  have v: "extract_best_money [ascii ''$2k''] = Some (ascii ''$2000'')" by code_simp
  show ?thesis
    using h f v
      unparsable_literal_is_skipped [of "ascii ''1.234.567''" "[ascii ''$2k'']" "(None, - 1)"
        "[ascii ''1.234.567'', ascii ''$2k'']"]
    by simp
qed

text \<open>The claim as stated fails: for an unparsable literal \<open>normalize_money\<close> hands
  the raw token back as its result.\<close>

theorem unparsable_literal_counterexample:
  "unparsable_literal (ascii ''1.234.567'')
   \<and> normalize_money (ascii ''1.234.567'') = Some (ascii ''1.234.567'')
   \<and> normalize_money (ascii ''1.234.567'') \<noteq> None"
  by code_simp

section \<open>Properties of the keyword score\<close>

lemma score_comment_range: "0 \<le> fst (score_comment body) \<and> fst (score_comment body) \<le> 9"
proof -
  define n where "n = min 3 (int (length (finditer RE_MONEY (lower body))))"
  have "0 \<le> n" "n \<le> 3" by (simp_all add: n_def)
  then show ?thesis
    unfolding score_comment_def Let_def n_def [symmetric] by (simp split: if_splits)
qed

text \<open>
  Claim C8 at the body \<open>MRR is growing\<close>. The selling keyword \<open>MRR\<close> occurs in
  the body, and \<open>score_comment\<close> returns 0: the body is lowered before the keywords are
  looked up, and the keywords \<open>MRR\<close> and \<open>ARR\<close> are spelled in capitals, so they
  never occur in the lowered text.
\<close>

theorem score_comment_misses_capital_keyword:
  "ascii ''MRR'' \<in> set KEYWORDS_SELL
   \<and> str_in (ascii ''MRR'') (ascii ''MRR is growing'')
   \<and> fst (score_comment (ascii ''MRR is growing'')) = 0"
  by code_simp


section \<open>Properties of selection and ranking\<close>

text \<open>
  The dictionary that the main block builds from the rows, started from \<open>d\<close>; a
  dictionary is keyed by URL when every entry holds a record with that comment URL.
  Two fetches of one comment with different bodies. The gate of the comment loop of
  \<open>run.py\<close> as a predicate on the body.
\<close>

definition url_keyed :: "(ustr \<times> Evidence) list \<Rightarrow> bool" where
  "url_keyed d = (\<forall>(k, r)\<in>set d. comment_url r = k)"

definition url_dict :: "(ustr \<times> Evidence) list \<Rightarrow> Evidence list \<Rightarrow> (ustr \<times> Evidence) list" where
  "url_dict d rows = foldl (\<lambda>d r. dict_set d (comment_url r) r) d rows"

definition stale_fetch :: comment where
  "stale_fetch = sample_comment (ascii ''c1'') (ascii ''I made $5 with my bot'')"

definition fresh_fetch :: comment where
  "fresh_fetch = sample_comment (ascii ''c1'') (ascii ''I made $7 with my bot'')"

definition other_fetch :: comment where
  "other_fetch = sample_comment (ascii ''c2'') (ascii ''We bill $9 a seat'')"

definition no_money_fetch :: comment where
  "no_money_fetch = sample_comment (ascii ''c1'') (ascii ''deleted by author'')"

text \<open>
  First seen wins, said directly: the comments of a run in the order in which they are
  fetched, each with its subreddit name and thread; of these, the ones whose id has not
  been met before; and the evidence extracted from one of them.
\<close>

definition fetched ::
  "(ustr \<times> (submission \<times> comment list) option) list \<Rightarrow> (ustr \<times> submission \<times> comment) list" where
  "fetched threads =
     concat (map (\<lambda>(sub_name, r). case r of None \<Rightarrow> []
                                      | Some (sub, comments) \<Rightarrow> map (\<lambda>c. (sub_name, sub, c)) comments)
                 threads)"

fun first_seen :: "ustr set \<Rightarrow> (ustr \<times> submission \<times> comment) list \<Rightarrow> (ustr \<times> submission \<times> comment) list" where
  "first_seen seen [] = []"
| "first_seen seen ((n, sub, c) # xs) =
     (if c_id c \<in> seen then first_seen seen xs
      else (n, sub, c) # first_seen (insert (c_id c) seen) xs)"

definition evidence_of :: "ustr \<times> submission \<times> comment \<Rightarrow> Evidence option" where
  "evidence_of x = (case x of (n, sub, c) \<Rightarrow> extract_evidence n sub c)"

definition fetched_ids :: "(ustr \<times> submission \<times> comment) list \<Rightarrow> ustr set" where
  "fetched_ids xs = (\<lambda>x. c_id (snd (snd x))) ` set xs"

definition qualifies :: "bool \<Rightarrow> int \<Rightarrow> ustr \<Rightarrow> bool" where
  "qualifies allow_no_numbers min_score body =
     (strip body \<noteq> [] \<and> (allow_no_numbers \<or> fst (has_quantitative body))
      \<and> min_score \<le> fst (score_comment body))"

lemma map_of_dict_set: "map_of (dict_set d k v) = (map_of d)(k \<mapsto> v)"
  by (induction d k v rule: dict_set.induct) (auto simp: fun_eq_iff)

lemma keys_dict_set:
  "map fst (dict_set d k v) = (if k \<in> fst ` set d then map fst d else map fst d @ [k])"
  by (induction d k v rule: dict_set.induct) auto

lemma dict_set_fresh: "k \<notin> fst ` set d \<Longrightarrow> dict_set d k v = d @ [(k, v)]"
  by (induction d k v rule: dict_set.induct) auto

lemma url_keyed_dict_set: "url_keyed d \<Longrightarrow> url_keyed (dict_set d (comment_url r) r)"
  by (induction d "comment_url r" r rule: dict_set.induct) (auto simp: url_keyed_def)

lemma url_dict_props:
  "distinct (map fst d) \<Longrightarrow> url_keyed d \<Longrightarrow>
     distinct (map fst (url_dict d rows)) \<and> url_keyed (url_dict d rows)
     \<and> set (map fst (url_dict d rows)) = fst ` set d \<union> comment_url ` set rows
     \<and> map_of (url_dict d rows) = map_of d ++ map_of (rev (map (\<lambda>r. (comment_url r, r)) rows))"
proof (induction rows arbitrary: d)
  case Nil
  then show ?case by (simp add: url_dict_def)
next
  case (Cons r rows)
  let ?d = "dict_set d (comment_url r) r"
  have d1: "distinct (map fst ?d)" using Cons.prems(1) by (simp add: keys_dict_set)
  have d2: "url_keyed ?d" using Cons.prems(2) by (rule url_keyed_dict_set)
  have keys: "fst ` set ?d = insert (comment_url r) (fst ` set d)"
    using keys_dict_set [of d "comment_url r" r]
    by (metis (no_types, lifting) Un_insert_right append_Nil2 insert_absorb list.set(2) list.set_map set_append)
  have step: "url_dict d (r # rows) = url_dict ?d rows" by (simp add: url_dict_def)
  from Cons.IH [OF d1 d2] show ?case
    unfolding step keys by (auto simp: map_of_dict_set map_add_def fun_eq_iff split: option.splits)
qed

lemma find_keyed: "url_keyed d \<Longrightarrow> List.find (\<lambda>r. comment_url r = u) (map snd d) = map_of d u"
  by (induction d) (auto simp: url_keyed_def)

lemma map_of_find: "map_of (map (\<lambda>r. (f r, r)) xs) u = List.find (\<lambda>r. f r = u) xs"
  by (induction xs) auto

lemma keyed_urls: "url_keyed d \<Longrightarrow> map comment_url (map snd d) = map fst d"
  by (induction d) (auto simp: url_keyed_def)

lemma dedup_url_dict: "dedup rows = map snd (url_dict [] rows)"
  by (simp add: dedup_def url_dict_def)

lemma dedup_one_per_url:
  "distinct (map comment_url (dedup rows)) \<and> set (map comment_url (dedup rows)) = comment_url ` set rows"
proof -
  have p: "distinct (map fst (url_dict [] rows))" "url_keyed (url_dict [] rows)"
    "set (map fst (url_dict [] rows)) = comment_url ` set rows"
    using url_dict_props [of "[]" rows] by (simp_all add: url_keyed_def)
  have "map comment_url (dedup rows) = map fst (url_dict [] rows)"
    unfolding dedup_url_dict by (rule keyed_urls) (rule p(2))
  with p(1) p(3) show ?thesis by simp
qed

lemma dedup_last_wins:
  "List.find (\<lambda>r. comment_url r = u) (dedup rows) = List.find (\<lambda>r. comment_url r = u) (rev rows)"
proof -
  have p: "url_keyed (url_dict [] rows)"
    "map_of (url_dict [] rows) = map_of (rev (map (\<lambda>r. (comment_url r, r)) rows))"
    using url_dict_props [of "[]" rows] by (simp_all add: url_keyed_def)
  show ?thesis
    unfolding dedup_url_dict find_keyed [OF p(1)] p(2) rev_map map_of_find ..
qed

lemma url_dict_distinct:
  "distinct (map fst d @ map comment_url rows) \<Longrightarrow>
     url_dict d rows = d @ map (\<lambda>r. (comment_url r, r)) rows"
proof (induction rows arbitrary: d)
  case Nil
  then show ?case by (simp add: url_dict_def)
next
  case (Cons r rows)
  have fresh: "comment_url r \<notin> fst ` set d" using Cons.prems by auto
  have "url_dict d (r # rows) = url_dict (d @ [(comment_url r, r)]) rows"
    by (simp add: url_dict_def dict_set_fresh [OF fresh])
  also have "\<dots> = (d @ [(comment_url r, r)]) @ map (\<lambda>r. (comment_url r, r)) rows"
    using Cons.prems by (intro Cons.IH) auto
  finally show ?case by simp
qed

lemma dedup_id: "distinct (map comment_url rows) \<Longrightarrow> dedup rows = rows"
  using url_dict_distinct [of "[]" rows] by (simp add: dedup_url_dict comp_def)

lemma distinct_map_insort:
  "distinct (map f (insort_key k x xs)) = (f x \<notin> f ` set xs \<and> distinct (map f xs))"
  by (induction xs) (auto simp: set_insort_key)

lemma distinct_map_sort: "distinct (map f (sort_key k xs)) = distinct (map f xs)"
  by (induction xs) (auto simp: distinct_map_insort)

lemma select_and_rank_idem: "select_and_rank (select_and_rank rows) = select_and_rank rows"
proof -
  let ?out = "sort_key rank_key (dedup rows)"
  have "distinct (map comment_url ?out)"
    using dedup_one_per_url [of rows] by (simp add: distinct_map_sort)
  then have "dedup ?out = ?out" by (rule dedup_id)
  moreover have "sort_key rank_key ?out = ?out"
    by (rule sort_key_id_if_sorted) (rule sorted_sort_key)
  ultimately show ?thesis by (simp add: select_and_rank_def)
qed


lemma scrape_comments_seen:
  "fst (scrape_comments sr sub cs (seen, evs)) = seen \<union> c_id ` set cs"
  by (induction cs arbitrary: seen evs) (auto split: option.splits)

lemma scrape_comments_skip:
  "c_id c \<in> seen \<Longrightarrow> scrape_comments sr sub [c] (seen, evs) = (seen, evs)"
  by simp

lemma run_scrape_second_fetch:
  assumes "c_id c2 = c_id c1"
  shows "run_scrape [(n1, Some (sub1, [c1])), (n2, Some (sub2, [c2]))]
         = run_scrape [(n1, Some (sub1, [c1]))]"
proof -
  obtain seen evs where st: "scrape_comments n1 sub1 [c1] ({}, []) = (seen, evs)"
    by (cases "scrape_comments n1 sub1 [c1] ({}, [])")
  have "seen = {} \<union> c_id ` set [c1]"
    using scrape_comments_seen [of n1 sub1 "[c1]" "{}" "[]"] st by simp
  then have "c_id c2 \<in> seen" using assms by simp
  then have skip: "scrape_comments n2 sub2 [c2] (seen, evs) = (seen, evs)"
    by (rule scrape_comments_skip)
  have two: "scrape_threads [(n1, Some (sub1, [c1])), (n2, Some (sub2, [c2]))] ({}, [])
             = scrape_comments n2 sub2 [c2] (seen, evs)"
    by (simp only: scrape_threads.simps st)
  have one: "scrape_threads [(n1, Some (sub1, [c1]))] ({}, []) = (seen, evs)"
    by (simp only: scrape_threads.simps st)
  show ?thesis unfolding run_scrape_def two one skip ..
qed

lemma ranked_rows_idem: "ranked_rows (ranked_rows rows) = ranked_rows rows"
  unfolding ranked_rows_def by (rule sort_key_id_if_sorted) (rule sorted_sort_key)

lemma main_rows_bodies:
  "map r_body (main_rows allow_no_numbers min_score cs)
   = filter (qualifies allow_no_numbers min_score) (map a_body cs)"
  by (induction cs) (auto simp: qualifies_def Let_def split: prod.splits)


lemma fetched_ids_map: "fetched_ids (map (\<lambda>c. (n, sub, c)) cs) = c_id ` set cs"
  by (simp add: fetched_ids_def image_image)

lemma fetched_ids_append: "fetched_ids (xs @ ys) = fetched_ids xs \<union> fetched_ids ys"
  by (simp add: fetched_ids_def image_Un)

lemma first_seen_append:
  "first_seen seen (xs @ ys) = first_seen seen xs @ first_seen (seen \<union> fetched_ids xs) ys"
proof (induction seen xs rule: first_seen.induct)
  case (1 seen)
  show ?case by (simp add: fetched_ids_def)
next
  case (2 seen n sub c xs)
  show ?case
  proof (cases "c_id c \<in> seen")
    case True
    then have "seen \<union> fetched_ids ((n, sub, c) # xs) = seen \<union> fetched_ids xs"
      by (auto simp: fetched_ids_def)
    with True "2.IH"(1) show ?thesis by simp
  next
    case False
    have "seen \<union> fetched_ids ((n, sub, c) # xs) = insert (c_id c) seen \<union> fetched_ids xs"
      by (auto simp: fetched_ids_def)
    with False "2.IH"(2) show ?thesis by simp
  qed
qed

lemma first_seen_repeat:
  assumes "c_id c \<in> seen \<union> fetched_ids xs"
  shows "first_seen seen (xs @ (n, sub, c) # ys) = first_seen seen (xs @ ys)"
  using assms by (simp add: first_seen_append)

lemma scrape_comments_first_seen:
  "scrape_comments n sub cs (seen, evs)
   = (seen \<union> c_id ` set cs,
      evs @ List.map_filter evidence_of (first_seen seen (map (\<lambda>c. (n, sub, c)) cs)))"
proof (induction cs arbitrary: seen evs)
  case Nil
  show ?case by (simp add: map_filter_simps)
next
  case (Cons c cs)
  show ?case
  proof (cases "c_id c \<in> seen")
    case True
    then have "seen \<union> c_id ` set (c # cs) = seen \<union> c_id ` set cs" by auto
    with True Cons.IH [of seen evs] show ?thesis by simp
  next
    case False
    have u: "insert (c_id c) seen \<union> c_id ` set cs = seen \<union> c_id ` set (c # cs)" by auto
    show ?thesis
    proof (cases "extract_evidence n sub c")
      case None
      with False Cons.IH [of "insert (c_id c) seen" evs] u show ?thesis
        by (simp add: map_filter_simps evidence_of_def)
    next
      case (Some ev)
      with False Cons.IH [of "insert (c_id c) seen" "evs @ [ev]"] u show ?thesis
        by (simp add: map_filter_simps evidence_of_def)
    qed
  qed
qed

lemma map_filter_append: "List.map_filter f (xs @ ys) = List.map_filter f xs @ List.map_filter f ys"
  by (simp add: List.map_filter_def)

lemma scrape_threads_first_seen:
  "scrape_threads ts (seen, evs)
   = (seen \<union> fetched_ids (fetched ts),
      evs @ List.map_filter evidence_of (first_seen seen (fetched ts)))"
proof (induction ts arbitrary: seen evs)
  case Nil
  show ?case by (simp add: fetched_def fetched_ids_def map_filter_simps)
next
  case (Cons t ts)
  obtain n r where t: "t = (n, r)" by (cases t)
  show ?case
  proof (cases r)
    case None
    have "fetched (t # ts) = fetched ts" by (simp add: fetched_def t None)
    with Cons.IH [of seen evs] show ?thesis by (simp add: t None)
  next
    case (Some p)
    obtain sub cs where p: "p = (sub, cs)" by (cases p)
    let ?xs = "map (\<lambda>c. (n, sub, c)) cs"
    have f: "fetched (t # ts) = ?xs @ fetched ts" by (simp add: fetched_def t Some p)
    have ids: "fetched_ids ?xs = c_id ` set cs" by (rule fetched_ids_map)
    have "scrape_threads (t # ts) (seen, evs)
          = scrape_threads ts (seen \<union> c_id ` set cs,
              evs @ List.map_filter evidence_of (first_seen seen ?xs))"
      by (simp only: t Some p scrape_threads.simps scrape_comments_first_seen)
    also have "\<dots> = ((seen \<union> c_id ` set cs) \<union> fetched_ids (fetched ts),
        (evs @ List.map_filter evidence_of (first_seen seen ?xs))
          @ List.map_filter evidence_of (first_seen (seen \<union> c_id ` set cs) (fetched ts)))"
      by (rule Cons.IH)
    also have "\<dots> = (seen \<union> fetched_ids (fetched (t # ts)),
        evs @ List.map_filter evidence_of (first_seen seen (fetched (t # ts))))"
      unfolding f first_seen_append fetched_ids_append ids map_filter_append
      by (simp add: Un_assoc)
    finally show ?thesis .
  qed
qed

lemma run_scrape_first_seen:
  "run_scrape threads = List.map_filter evidence_of (first_seen {} (fetched threads))"
  by (simp add: run_scrape_def scrape_threads_first_seen)

lemma fetched_append: "fetched (ts1 @ ts2) = fetched ts1 @ fetched ts2"
  by (simp add: fetched_def)

lemma fetched_listing:
  "fetched ((n, Some (sub, cs)) # ts) = map (\<lambda>c. (n, sub, c)) cs @ fetched ts"
  by (simp add: fetched_def)

lemma run_scrape_repeat:
  assumes "c_id c \<in> fetched_ids (fetched ts1) \<union> c_id ` set cs1"
  shows "run_scrape (ts1 @ (n, Some (sub, cs1 @ c # cs2)) # ts2)
         = run_scrape (ts1 @ (n, Some (sub, cs1 @ cs2)) # ts2)"
proof -
  let ?m = "map (\<lambda>c. (n, sub, c))"
  have ids: "fetched_ids (fetched ts1 @ ?m cs1) = fetched_ids (fetched ts1) \<union> c_id ` set cs1"
    by (simp add: fetched_ids_append fetched_ids_map)
  have "first_seen {} ((fetched ts1 @ ?m cs1) @ (n, sub, c) # (?m cs2 @ fetched ts2))
        = first_seen {} ((fetched ts1 @ ?m cs1) @ (?m cs2 @ fetched ts2))"
    by (rule first_seen_repeat) (use assms ids in simp)
  then show ?thesis
    by (simp add: run_scrape_first_seen fetched_append fetched_listing)
qed

lemma scrape_comments_repeat:
  assumes "c_id c \<in> seen \<union> c_id ` set cs1"
  shows "scrape_comments n sub (cs1 @ c # cs2) (seen, evs) = scrape_comments n sub (cs1 @ cs2) (seen, evs)"
proof -
  let ?m = "map (\<lambda>c. (n, sub, c))"
  have ids: "fetched_ids (?m cs1) = c_id ` set cs1" by (rule fetched_ids_map)
  have "first_seen seen (?m cs1 @ (n, sub, c) # ?m cs2) = first_seen seen (?m cs1 @ ?m cs2)"
    by (rule first_seen_repeat) (use assms ids in simp)
  moreover have "seen \<union> c_id ` set (cs1 @ c # cs2) = seen \<union> c_id ` set (cs1 @ cs2)"
    using assms by auto
  ultimately show ?thesis by (simp add: scrape_comments_first_seen)
qed

text \<open>A first fetch without a money match leaves no record, and the later fetch of the
  same comment is skipped all the same.\<close>

lemma first_fetch_without_money:
  "run_scrape [(ascii ''SaaS'', Some (sample_thread, [no_money_fetch])),
               (ascii ''SaaS'', Some (sample_thread, [fresh_fetch]))] = []"
  by code_simp

text \<open>
  Claim C6, as the code has it. The main block keeps exactly one record per comment URL,
  and for each URL it keeps the last of the rows with that URL. But \<open>run_scrape\<close>
  processes a comment id only the first time it is fetched in a run: the records of a
  run are exactly the evidence extracted from the first fetch of each id, in the order
  of fetching; a later fetch of an id already seen, anywhere in the same listing or in a
  later one, changes nothing (the rest of its listing is processed as before). So the
  record that reaches the output is never the one processed last.
\<close>

theorem dedup_keeps_one_per_url:
  "distinct (map comment_url (dedup rows))
   \<and> set (map comment_url (dedup rows)) = comment_url ` set rows
   \<and> List.find (\<lambda>r. comment_url r = u) (dedup rows)
       = List.find (\<lambda>r. comment_url r = u) (rev rows)
   \<and> (c_id c2 = c_id c1 \<longrightarrow>
        run_scrape [(n1, Some (sub1, [c1])), (n2, Some (sub2, [c2]))]
        = run_scrape [(n1, Some (sub1, [c1]))])
   \<and> run_scrape threads = List.map_filter evidence_of (first_seen {} (fetched threads))
   \<and> (c_id c \<in> seen \<union> c_id ` set cs1 \<longrightarrow>
        scrape_comments n sub (cs1 @ c # cs2) (seen, evs)
        = scrape_comments n sub (cs1 @ cs2) (seen, evs))
   \<and> (c_id c' \<in> fetched_ids (fetched ts1) \<union> c_id ` set cs1' \<longrightarrow>
        run_scrape (ts1 @ (n', Some (sub', cs1' @ c' # cs2')) # ts2)
        = run_scrape (ts1 @ (n', Some (sub', cs1' @ cs2')) # ts2))"
  using dedup_one_per_url [of rows] dedup_last_wins [of u rows]
    run_scrape_second_fetch [of c2 c1 n1 sub1 n2 sub2]
    run_scrape_first_seen [of threads]
    scrape_comments_repeat [of c seen cs1 n sub cs2 evs]
    run_scrape_repeat [of c' ts1 cs1' n' sub' cs2' ts2]
  by blast

theorem dedup_keeps_one_per_url_witness:
  "c_id fresh_fetch = c_id stale_fetch
   \<and> run_scrape [(ascii ''SaaS'', Some (sample_thread, [stale_fetch])),
                 (ascii ''SaaS'', Some (sample_thread, [fresh_fetch]))]
       = run_scrape [(ascii ''SaaS'', Some (sample_thread, [stale_fetch]))]
   \<and> map post (run_scrape [(ascii ''SaaS'', Some (sample_thread, [stale_fetch]))])
       = [ascii ''I made $5 with my bot'']
   \<and> c_id fresh_fetch \<in> {c_id stale_fetch} \<union> c_id ` set []
   \<and> scrape_comments (ascii ''SaaS'') sample_thread ([] @ fresh_fetch # [other_fetch])
         ({c_id stale_fetch}, [])
       = scrape_comments (ascii ''SaaS'') sample_thread ([] @ [other_fetch])
           ({c_id stale_fetch}, [])
   \<and> c_id fresh_fetch
       \<in> fetched_ids (fetched [(ascii ''SaaS'', Some (sample_thread, [stale_fetch]))])
         \<union> c_id ` set []
   \<and> run_scrape ([(ascii ''SaaS'', Some (sample_thread, [stale_fetch]))]
         @ (ascii ''SaaS'', Some (sample_thread, [] @ fresh_fetch # [other_fetch])) # [])
       = run_scrape ([(ascii ''SaaS'', Some (sample_thread, [stale_fetch]))]
         @ (ascii ''SaaS'', Some (sample_thread, [] @ [other_fetch])) # [])
   \<and> map post (run_scrape [(ascii ''SaaS'', Some (sample_thread, [stale_fetch])),
                           (ascii ''SaaS'', Some (sample_thread, [fresh_fetch, other_fetch]))])
       = [ascii ''I made $5 with my bot'', ascii ''We bill $9 a seat'']"
proof -
  have h: "c_id fresh_fetch = c_id stale_fetch" by code_simp
  have h6: "c_id fresh_fetch \<in> {c_id stale_fetch} \<union> c_id ` set []" using h by simp
  have h7: "c_id fresh_fetch
       \<in> fetched_ids (fetched [(ascii ''SaaS'', Some (sample_thread, [stale_fetch]))])
         \<union> c_id ` set []"
    by code_simp
  have v: "map post (run_scrape [(ascii ''SaaS'', Some (sample_thread, [stale_fetch]))])
           = [ascii ''I made $5 with my bot'']"
    by code_simp
  have v2: "map post (run_scrape [(ascii ''SaaS'', Some (sample_thread, [stale_fetch])),
                           (ascii ''SaaS'', Some (sample_thread, [fresh_fetch, other_fetch]))])
       = [ascii ''I made $5 with my bot'', ascii ''We bill $9 a seat'']"
    by code_simp
  note t = dedup_keeps_one_per_url [where rows = "[]" and u = "[]" and ?c2.0 = fresh_fetch
      and ?c1.0 = stale_fetch and ?n1.0 = "ascii ''SaaS''" and ?sub1.0 = sample_thread
      and ?n2.0 = "ascii ''SaaS''" and ?sub2.0 = sample_thread and threads = "[]"
      and c = fresh_fetch and seen = "{c_id stale_fetch}" and ?cs1.0 = "[]"
      and n = "ascii ''SaaS''" and sub = sample_thread and ?cs2.0 = "[other_fetch]"
      and evs = "[]" and c' = fresh_fetch
      and ?ts1.0 = "[(ascii ''SaaS'', Some (sample_thread, [stale_fetch]))]"
      and cs1' = "[]" and n' = "ascii ''SaaS''" and sub' = sample_thread
      and cs2' = "[other_fetch]" and ?ts2.0 = "[]"]
  from t h have a: "run_scrape [(ascii ''SaaS'', Some (sample_thread, [stale_fetch])),
                 (ascii ''SaaS'', Some (sample_thread, [fresh_fetch]))]
       = run_scrape [(ascii ''SaaS'', Some (sample_thread, [stale_fetch]))]"
    by blast
  from t h6 have b: "scrape_comments (ascii ''SaaS'') sample_thread
         ([] @ fresh_fetch # [other_fetch]) ({c_id stale_fetch}, [])
       = scrape_comments (ascii ''SaaS'') sample_thread ([] @ [other_fetch])
           ({c_id stale_fetch}, [])"
    by blast
  from t h7 have c: "run_scrape ([(ascii ''SaaS'', Some (sample_thread, [stale_fetch]))]
         @ (ascii ''SaaS'', Some (sample_thread, [] @ fresh_fetch # [other_fetch])) # [])
       = run_scrape ([(ascii ''SaaS'', Some (sample_thread, [stale_fetch]))]
         @ (ascii ''SaaS'', Some (sample_thread, [] @ [other_fetch])) # [])"
    by blast
  from h a v h6 b h7 c v2 show ?thesis by blast
qed

text \<open>The claim as stated fails: of two fetches of one comment (same id, same
  permalink, different bodies) the output holds the body processed first.\<close>

theorem dedup_last_seen_counterexample:
  "c_id fresh_fetch = c_id stale_fetch \<and> c_permalink fresh_fetch = c_permalink stale_fetch
   \<and> c_body fresh_fetch \<noteq> c_body stale_fetch
   \<and> map post (select_and_rank (run_scrape
        [(ascii ''SaaS'', Some (sample_thread, [stale_fetch])),
         (ascii ''SaaS'', Some (sample_thread, [fresh_fetch]))]))
      = [ascii ''I made $5 with my bot'']"
  by code_simp

text \<open>
  Claim C7. Selection and ranking of the evidence records (one record per comment URL,
  then the stable sort by descending score, lowered subreddit name and lowered thread
  title) gives the same list when it is applied to its own result; the result is sorted
  by the key; records with equal keys keep the order they had after deduplication; any
  two keys are comparable. The ranking of \<open>run.py\<close> (descending score, then descending
  upvotes) has the same properties, and its gate (non-blank body, numeric evidence
  unless allowed, minimum score) keeps every row when it is applied again to the rows
  it let through.
\<close>

theorem selection_and_ranking_idempotent:
  "select_and_rank (select_and_rank rows) = select_and_rank rows
   \<and> sorted (map rank_key (select_and_rank rows))
   \<and> filter (\<lambda>r. rank_key r = k) (select_and_rank rows) = filter (\<lambda>r. rank_key r = k) (dedup rows)
   \<and> (rank_key a \<le> rank_key b \<or> rank_key b \<le> rank_key a)
   \<and> ranked_rows (ranked_rows xs) = ranked_rows xs
   \<and> sorted (map row_key (ranked_rows xs))
   \<and> filter (\<lambda>x. row_key x = k') (ranked_rows xs) = filter (\<lambda>x. row_key x = k') xs
   \<and> filter (qualifies allow_no_numbers min_score)
        (map r_body (main_rows allow_no_numbers min_score cs))
       = map r_body (main_rows allow_no_numbers min_score cs)"
proof -
  have "sorted (map rank_key (select_and_rank rows))"
    unfolding select_and_rank_def by (rule sorted_sort_key)
  moreover have "filter (\<lambda>r. rank_key r = k) (select_and_rank rows)
      = filter (\<lambda>r. rank_key r = k) (dedup rows)"
    unfolding select_and_rank_def by (rule sort_key_stable)
  moreover have "rank_key a \<le> rank_key b \<or> rank_key b \<le> rank_key a"
    by (rule linear)
  moreover have "sorted (map row_key (ranked_rows xs))"
    unfolding ranked_rows_def by (rule sorted_sort_key)
  moreover have "filter (\<lambda>x. row_key x = k') (ranked_rows xs) = filter (\<lambda>x. row_key x = k') xs"
    unfolding ranked_rows_def by (rule sort_key_stable)
  moreover have "filter (qualifies allow_no_numbers min_score)
        (map r_body (main_rows allow_no_numbers min_score cs))
       = map r_body (main_rows allow_no_numbers min_score cs)"
    unfolding main_rows_bodies by simp
  ultimately show ?thesis
    using select_and_rank_idem [of rows] ranked_rows_idem [of xs] by blast
qed


section \<open>What a match is made of\<close>

text \<open>
  The words a pattern can match, whatever the order in which the matcher tries them:
  \<open>lang r\<close> is the language of \<open>r\<close> (a word boundary matches the empty word), and
  \<open>glang g r\<close> collects the languages of the groups named \<open>g\<close> in \<open>r\<close>. Every
  state that \<open>ms\<close> lists lies within the string, the text between the start and the
  end is in \<open>lang r\<close>, and the text of every new capture of \<open>g\<close> is in \<open>glang g r\<close>.
\<close>

inductive_set star :: "ustr set \<Rightarrow> ustr set" for L :: "ustr set" where
  star_nil: "[] \<in> star L"
| star_step: "x \<in> L \<Longrightarrow> y \<in> star L \<Longrightarrow> x @ y \<in> star L"

fun lang :: "rx \<Rightarrow> ustr set" where
  "lang Eps = {[]}"
| "lang (Sym P) = {[c] | c. P c}"
| "lang (Seq a b) = {x @ y | x y. x \<in> lang a \<and> y \<in> lang b}"
| "lang (Alt a b) = lang a \<union> lang b"
| "lang (Opt a) = insert [] (lang a)"
| "lang (Star a) = star (lang a)"
| "lang (Grp g a) = lang a"
| "lang WordB = {[]}"

fun glang :: "string \<Rightarrow> rx \<Rightarrow> ustr set" where
  "glang g (Grp h a) = (if g = h then lang a else {}) \<union> glang g a"
| "glang g (Seq a b) = glang g a \<union> glang g b"
| "glang g (Alt a b) = glang g a \<union> glang g b"
| "glang g (Opt a) = glang g a"
| "glang g (Star a) = glang g a"
| "glang g r = {}"

lemma ms_Star_mem:
  "st' \<in> set (ms (Star a) s (i, c)) \<longleftrightarrow>
     st' = (i, c) \<or> (\<exists>j c1. (j, c1) \<in> set (ms a s (i, c)) \<and> i < j \<and> j \<le> length s
                        \<and> st' \<in> set (ms (Star a) s (j, c1)))"
  by (subst ms.simps(6)) (auto simp del: ms.simps(6) split: if_splits)

lemma slice_same: "slice s i i = []"
  by (simp add: slice_def)

lemma slice_one: "i < length s \<Longrightarrow> slice s i (Suc i) = [s ! i]"
  by (simp add: slice_def take_Suc_conv_app_nth [of 0] Cons_nth_drop_Suc [symmetric])

lemma slice_append: "i \<le> k \<Longrightarrow> k \<le> j \<Longrightarrow> slice s i k @ slice s k j = slice s i j"
proof -
  assume a: "i \<le> k" "k \<le> j"
  have "take (j - i) (drop i s) = take (k - i) (drop i s) @ take (j - k) (drop (k - i) (drop i s))"
    using a take_add [of "k - i" "j - k" "drop i s"] by simp
  then show ?thesis using a by (simp add: slice_def)
qed

lemma set_slice: "set (slice s i j) \<subseteq> set s"
  unfolding slice_def by (meson set_drop_subset set_take_subset subset_trans)

lemma ms_sound:
  "st' \<in> set (ms r s st) \<Longrightarrow> fst st \<le> length s \<Longrightarrow>
     fst st \<le> fst st' \<and> fst st' \<le> length s \<and> slice s (fst st) (fst st') \<in> lang r"
proof (induction r s st arbitrary: st' rule: ms.induct)
  case (1 s st)
  then show ?case by (simp add: slice_same)
next
  case (2 P s i c)
  then show ?case by (auto simp: slice_one split: if_splits)
next
  case (3 a b s st)
  from "3.prems"(1) obtain st1 where m1: "st1 \<in> set (ms a s st)" and m2: "st' \<in> set (ms b s st1)"
    by auto
  from "3.IH"(1) [OF m1 "3.prems"(2)]
  have p1: "fst st \<le> fst st1" "fst st1 \<le> length s" "slice s (fst st) (fst st1) \<in> lang a"
    by simp_all
  from "3.IH"(2) [OF m1 m2 p1(2)]
  have p2: "fst st1 \<le> fst st'" "fst st' \<le> length s" "slice s (fst st1) (fst st') \<in> lang b"
    by simp_all
  have "slice s (fst st) (fst st') = slice s (fst st) (fst st1) @ slice s (fst st1) (fst st')"
    using p1(1) p2(1) by (simp add: slice_append)
  with p1 p2 show ?case by auto
next
  case (4 a b s st)
  from "4.prems"(1) have "st' \<in> set (ms a s st) \<or> st' \<in> set (ms b s st)" by simp
  then show ?case
  proof
    assume "st' \<in> set (ms a s st)"
    from "4.IH"(1) [OF this "4.prems"(2)] show ?thesis by simp
  next
    assume "st' \<in> set (ms b s st)"
    from "4.IH"(2) [OF this "4.prems"(2)] show ?thesis by simp
  qed
next
  case (5 a s st)
  from "5.prems"(1) have "st' \<in> set (ms a s st) \<or> st' = st" by auto
  then show ?case
  proof
    assume "st' \<in> set (ms a s st)"
    from "5.IH" [OF this "5.prems"(2)] show ?thesis by simp
  next
    assume "st' = st"
    with "5.prems"(2) show ?thesis by (simp add: slice_same)
  qed
next
  case (6 a s i c)
  from "6.prems"(1) consider "st' = (i, c)"
    | j c1 where "(j, c1) \<in> set (ms a s (i, c))" "i < j" "j \<le> length s"
        "st' \<in> set (ms (Star a) s (j, c1))"
    unfolding ms_Star_mem [of st' a s i c] by blast
  then show ?case
  proof cases
    case 1
    then show ?thesis using "6.prems"(2) by (simp add: slice_same star_nil del: ms.simps(6))
  next
    case 2
    from "6.IH"(1) [OF 2(1)] "6.prems"(2)
    have p1: "slice s i j \<in> lang a" by (simp del: ms.simps(6))
    from "6.IH"(2) [OF 2(1) refl _ 2(4)] 2(2,3)
    have p2: "j \<le> fst st'" "fst st' \<le> length s" "slice s j (fst st') \<in> star (lang a)"
      by (simp_all del: ms.simps(6))
    have "slice s i (fst st') = slice s i j @ slice s j (fst st')"
      using 2(2) p2(1) by (simp add: slice_append)
    with p1 p2 2(2) show ?thesis by (auto intro: star_step simp del: ms.simps(6))
  qed
next
  case (7 g a s i c)
  then show ?case by auto
next
  case (8 s i c)
  then show ?case by (auto simp: slice_same split: if_splits)
qed

lemma ms_caps:
  "st' \<in> set (ms r s st) \<Longrightarrow> fst st \<le> length s \<Longrightarrow> (g, a, b) \<in> set (snd st') \<Longrightarrow>
     (g, a, b) \<in> set (snd st) \<or> slice s a b \<in> glang g r"
proof (induction r s st arbitrary: st' rule: ms.induct)
  case (1 s st)
  then show ?case by simp
next
  case (2 P s i c)
  then show ?case by (auto split: if_splits)
next
  case (3 x y s st)
  from "3.prems"(1) obtain st1 where m1: "st1 \<in> set (ms x s st)" and m2: "st' \<in> set (ms y s st1)"
    by auto
  have l1: "fst st1 \<le> length s" using ms_sound [OF m1 "3.prems"(2)] by simp
  from "3.IH"(2) [OF m1 m2 l1 "3.prems"(3)]
  have "(g, a, b) \<in> set (snd st1) \<or> slice s a b \<in> glang g y" .
  then show ?case using "3.IH"(1) [OF m1 "3.prems"(2)] by auto
next
  case (4 x y s st)
  from "4.prems"(1) have "st' \<in> set (ms x s st) \<or> st' \<in> set (ms y s st)" by simp
  then show ?case
  proof
    assume "st' \<in> set (ms x s st)"
    from "4.IH"(1) [OF this "4.prems"(2,3)] show ?thesis by auto
  next
    assume "st' \<in> set (ms y s st)"
    from "4.IH"(2) [OF this "4.prems"(2,3)] show ?thesis by auto
  qed
next
  case (5 x s st)
  from "5.prems"(1) have "st' \<in> set (ms x s st) \<or> st' = st" by auto
  then show ?case
  proof
    assume "st' \<in> set (ms x s st)"
    from "5.IH" [OF this "5.prems"(2,3)] show ?thesis by auto
  next
    assume "st' = st"
    with "5.prems"(3) show ?thesis by simp
  qed
next
  case (6 x s i c)
  from "6.prems"(1) consider "st' = (i, c)"
    | j c1 where "(j, c1) \<in> set (ms x s (i, c))" "i < j" "j \<le> length s"
        "st' \<in> set (ms (Star x) s (j, c1))"
    unfolding ms_Star_mem [of st' x s i c] by blast
  then show ?case
  proof cases
    case 1
    then show ?thesis using "6.prems"(3) by (simp del: ms.simps(6))
  next
    case 2
    from "6.IH"(2) [OF 2(1) refl _ 2(4) _ "6.prems"(3)] 2(2,3)
    have "(g, a, b) \<in> set c1 \<or> slice s a b \<in> glang g (Star x)" by (simp del: ms.simps(6))
    then show ?thesis using "6.IH"(1) [OF 2(1)] "6.prems"(2) by (auto simp del: ms.simps(6))
  qed
next
  case (7 h x s i c)
  from "7.prems"(1) obtain j c1 where m: "(j, c1) \<in> set (ms x s (i, c))"
    and st': "st' = (j, (h, i, j) # c1)" by auto
  have sl: "slice s i j \<in> lang x" using ms_sound [OF m] "7.prems"(2) by simp
  from "7.prems"(3) st' have "(g, a, b) = (h, i, j) \<or> (g, a, b) \<in> set c1" by auto
  then show ?case
  proof
    assume "(g, a, b) = (h, i, j)"
    with sl show ?thesis by simp
  next
    assume "(g, a, b) \<in> set c1"
    with "7.IH" [OF m] "7.prems"(2) show ?thesis by auto
  qed
next
  case (8 s i c)
  then show ?case by (auto split: if_splits)
qed

lemma first_match_Some:
  "first_match r s is = Some m \<Longrightarrow>
     \<exists>i\<in>set is. (m_end m, m_caps m) \<in> set (ms r s (i, [])) \<and> m_start m = i \<and> m_string m = s"
proof (induction "is")
  case Nil
  then show ?case by simp
next
  case (Cons i "is")
  show ?case
  proof (cases "match_at r s i")
    case None
    with Cons show ?thesis by auto
  next
    case (Some m')
    with Cons.prems have "m' = m" by simp
    with Some show ?thesis
      by (auto simp: match_at_def split: list.splits)
  qed
qed

lemma search_from_sound:
  assumes "search_from r s k = Some m"
  shows "k \<le> m_start m \<and> m_start m \<le> m_end m \<and> m_end m \<le> length s \<and> m_string m = s
         \<and> group0 m \<in> lang r \<and> (\<forall>g u. m_group m g = Some u \<longrightarrow> u \<in> glang g r)"
proof -
  from assms obtain i where i: "i \<in> set [k..<Suc (length s)]"
    and m: "(m_end m, m_caps m) \<in> set (ms r s (i, []))" "m_start m = i" "m_string m = s"
    unfolding search_from_def by (blast dest: first_match_Some)
  have il: "i \<le> length s" "k \<le> i" using i by auto
  have snd: "i \<le> m_end m" "m_end m \<le> length s" "slice s i (m_end m) \<in> lang r"
    using ms_sound [OF m(1)] il by simp_all
  have "u \<in> glang g r" if "m_group m g = Some u" for g u
  proof -
    from that obtain a b where ab: "map_of (m_caps m) g = Some (a, b)" and u: "u = slice s a b"
      by (auto simp: m_group_def m(3))
    from ab have "(g, a, b) \<in> set (m_caps m)" by (rule map_of_SomeD)
    with ms_caps [OF m(1), of g a b] il show ?thesis by (simp add: u)
  qed
  with il snd m show ?thesis by (simp add: group0_def)
qed


lemma ms_SeqI:
  "st1 \<in> set (ms a s st) \<Longrightarrow> st2 \<in> set (ms b s st1) \<Longrightarrow> st2 \<in> set (ms (Seq a b) s st)"
  by auto

lemma ms_Opt_skip: "st \<in> set (ms (Opt a) s st)"
  by simp

lemma ms_Star_skip: "st \<in> set (ms (Star a) s st)"
proof -
  obtain i c where st: "st = (i, c)" by (cases st)
  have "(i, c) \<in> set (ms (Star a) s (i, c))"
    by (subst ms.simps(6)) (simp del: ms.simps(6))
  then show ?thesis by (simp only: st)
qed

lemma ms_dig: "i < length s \<Longrightarrow> is_digit (s ! i) \<Longrightarrow> (Suc i, c) \<in> set (ms dig s (i, c))"
  by (simp add: dig_def)

lemma ms_number:
  assumes "i < length s" and "is_digit (s ! i)"
  shows "(Suc i, c) \<in> set (ms number_rx s (i, c))"
proof -
  have r: "rep_range 1 3 dig = Seq dig (rx_upto 2 dig)"
    by (simp add: rep_range_def)
  have 1: "(Suc i, c) \<in> set (ms (rep_range 1 3 dig) s (i, c))"
    unfolding r
    by (rule ms_SeqI [OF ms_dig [OF assms]]) (simp add: eval_nat_numeral)
  have 2: "(Suc i, c) \<in> set (ms (seqs [rep_range 1 3 dig,
                Star (Seq (cls (ascii ''.,'')) (rep 3 dig)),
                Opt (Seq (cls (ascii ''.,'')) (rx_plus dig))]) s (i, c))"
    unfolding seqs.simps
    by (rule ms_SeqI [OF 1]) (rule ms_SeqI [OF ms_Star_skip ms_Opt_skip])
  show ?thesis
    unfolding number_rx_def using 2 by (simp del: ms.simps(6) seqs.simps)
qed

lemma ms_revenue:
  assumes "i < length s" and "is_digit (s ! i)"
  shows "ms REVENUE_PATTERNS s (i, []) \<noteq> []"
proof -
  let ?c0 = "[(''currency'', i, i)]"
  let ?c1 = "(''amount'', i, Suc i) # ?c0"
  have cur: "(i, ?c0) \<in> set (ms (Grp ''currency'' (Opt (cls [36, 8364, 163]))) s (i, []))"
    by (simp add: image_iff)
  have amt: "(Suc i, ?c1) \<in> set (ms (Grp ''amount'' number_rx) s (i, ?c0))"
    using ms_number [OF assms, of ?c0] by (simp add: image_iff del: ms.simps(6)) force
  have tail: "(Suc i, ?c1) \<in> set (ms (seqs [Star spc, Opt (Grp ''mult'' (cls (ascii ''kKmM''))),
           Star spc, Opt (Grp ''unit'' unit_rx)]) s (Suc i, ?c1))"
    unfolding seqs.simps
    by (intro ms_SeqI [OF ms_Star_skip] ms_SeqI [OF ms_Opt_skip] ms_Opt_skip)
  have "(Suc i, ?c1) \<in> set (ms REVENUE_PATTERNS s (i, []))"
    unfolding REVENUE_PATTERNS_def seqs.simps
    apply (rule ms_SeqI [OF cur])
    apply (rule ms_SeqI [OF ms_Star_skip])
    apply (rule ms_SeqI [OF amt])
    using tail unfolding seqs.simps .
  then show ?thesis by auto
qed

lemma ms_money:
  assumes "i < length s" and "is_digit (s ! i)"
  shows "ms RE_MONEY s (i, []) \<noteq> []"
proof -
  let ?c1 = "[(''number'', i, Suc i)]"
  have num: "(Suc i, ?c1) \<in> set (ms (Grp ''number'' number_rx) s (i, []))"
    using ms_number [OF assms, of "[]"] by (simp add: image_iff del: ms.simps(6)) force
  have "(Suc i, ?c1) \<in> set (ms RE_MONEY s (i, []))"
    unfolding RE_MONEY_def seqs.simps
    apply (rule ms_SeqI [OF ms_Opt_skip])
    apply (rule ms_SeqI [OF num])
    apply (intro ms_SeqI [OF ms_Star_skip] ms_SeqI [OF ms_Opt_skip] ms_Opt_skip)
    done
  then show ?thesis by auto
qed

lemma first_match_at:
  "i \<in> set is \<Longrightarrow> ms r s (i, []) \<noteq> [] \<Longrightarrow> first_match r s is \<noteq> None"
  by (induction "is") (auto simp: match_at_def split: option.splits list.splits)

lemma digit_position: "list_ex is_digit s \<Longrightarrow> \<exists>i<length s. is_digit (s ! i)"
  by (auto simp: list_ex_iff in_set_conv_nth)

lemma search_at_digit:
  assumes "list_ex is_digit s" and "\<And>i. i < length s \<Longrightarrow> is_digit (s ! i) \<Longrightarrow> ms r s (i, []) \<noteq> []"
  shows "search r s \<noteq> None"
proof -
  from assms(1) obtain i where i: "i < length s" "is_digit (s ! i)"
    by (blast dest: digit_position)
  have "i \<in> set [0..<Suc (length s)]" using i(1) by simp
  then show ?thesis
    unfolding search_def search_from_def using assms(2) [OF i] by (rule first_match_at)
qed

lemma lang_number: "w \<in> lang number_rx \<Longrightarrow> list_ex is_digit w"
  by (auto simp: number_rx_def rep_range_def rx_plus_def dig_def)

lemma lang_bounded_number:
  "w \<in> lang (seqs (WordB # rep_range 1 n dig # r # rs)) \<Longrightarrow> list_ex is_digit w"
  by (auto simp: rep_range_def dig_def)

lemma lang_revenue: "w \<in> lang REVENUE_PATTERNS \<Longrightarrow> list_ex is_digit w"
  unfolding REVENUE_PATTERNS_def by (auto dest: lang_number)

lemma lang_money: "w \<in> lang RE_MONEY \<Longrightarrow> list_ex is_digit w"
  unfolding RE_MONEY_def by (auto dest: lang_number)

lemma search_digit:
  assumes "search r s \<noteq> None" and "\<And>w. w \<in> lang r \<Longrightarrow> list_ex is_digit w"
  shows "list_ex is_digit s"
proof -
  from assms(1) obtain m where m: "search_from r s 0 = Some m" by (auto simp: search_def)
  from search_from_sound [OF m] have "group0 m \<in> lang r" "m_string m = s" by simp_all
  with assms(2) have "list_ex is_digit (slice s (m_start m) (m_end m))"
    by (simp add: group0_def)
  then show ?thesis using set_slice [of s "m_start m" "m_end m"] by (auto simp: list_ex_iff)
qed

lemma finditer_nonempty: "(finditer r s \<noteq> []) = (search r s \<noteq> None)"
  unfolding finditer_def search_def
  by (subst finditer_from.simps) (simp split: option.splits del: finditer_from.simps)

lemma revenue_iff_digit: "(search REVENUE_PATTERNS s \<noteq> None) = list_ex is_digit s"
  using search_at_digit [of s REVENUE_PATTERNS] ms_revenue [of _ s]
    search_digit [of REVENUE_PATTERNS s] lang_revenue by blast

lemma money_iff_digit: "(finditer RE_MONEY s \<noteq> []) = list_ex is_digit s"
  unfolding finditer_nonempty
  using search_at_digit [of s RE_MONEY] ms_money [of _ s]
    search_digit [of RE_MONEY s] lang_money by blast

lemma other_patterns_digit:
  "finditer RE_DURATION s \<noteq> [] \<or> finditer RE_RATE s \<noteq> [] \<or> finditer RE_COUNT s \<noteq> []
     \<or> finditer RE_PERCENT s \<noteq> [] \<Longrightarrow> list_ex is_digit s"
proof -
  have d: "w \<in> lang RE_DURATION \<Longrightarrow> list_ex is_digit w" for w
    unfolding RE_DURATION_def by (rule lang_bounded_number)
  have r: "w \<in> lang RE_RATE \<Longrightarrow> list_ex is_digit w" for w
    unfolding RE_RATE_def by (rule lang_bounded_number)
  have c: "w \<in> lang RE_COUNT \<Longrightarrow> list_ex is_digit w" for w
    unfolding RE_COUNT_def by (rule lang_bounded_number)
  have p: "w \<in> lang RE_PERCENT \<Longrightarrow> list_ex is_digit w" for w
    unfolding RE_PERCENT_def by (rule lang_bounded_number)
  assume "finditer RE_DURATION s \<noteq> [] \<or> finditer RE_RATE s \<noteq> [] \<or> finditer RE_COUNT s \<noteq> []
     \<or> finditer RE_PERCENT s \<noteq> []"
  then show ?thesis
    unfolding finditer_nonempty
    using search_digit [of RE_DURATION s] search_digit [of RE_RATE s]
      search_digit [of RE_COUNT s] search_digit [of RE_PERCENT s] d r c p
    by blast
qed

lemma has_quantitative_any:
  "fst (has_quantitative s)
   = (finditer RE_MONEY s \<noteq> [] \<or> finditer RE_DURATION s \<noteq> [] \<or> finditer RE_RATE s \<noteq> []
      \<or> finditer RE_COUNT s \<noteq> [] \<or> finditer RE_PERCENT s \<noteq> [])"
  by (simp add: has_quantitative_def Let_def del: finditer_from.simps)

lemma has_quantitative_iff_digit: "fst (has_quantitative s) = list_ex is_digit s"
  unfolding has_quantitative_any using money_iff_digit [of s] other_patterns_digit [of s] by blast

lemma extract_evidence_iff:
  "(extract_evidence sr sub c \<noteq> None)
   = (or_empty (c_body c) \<noteq> [] \<and> search REVENUE_PATTERNS (or_empty (c_body c)) \<noteq> None)"
  by (auto simp: extract_evidence_def Let_def split: option.splits prod.splits)

lemma main_rows_numeric:
  assumes "r \<in> set (main_rows False min_score cs)"
  shows "fst (has_quantitative (r_body r))"
proof -
  from assms have "r_body r \<in> set (map r_body (main_rows False min_score cs))" by simp
  then show ?thesis unfolding main_rows_bodies by (simp add: qualifies_def)
qed

section \<open>Properties of the numeric gates\<close>

text \<open>Scenario 1 as a comment of the thread scraper, and the row it gives.\<close>

definition sample_a_comment :: a_comment where
  "sample_a_comment = \<lparr>a_body = scenario1_body, a_id = ascii ''c1'', a_author = ascii ''alice'',
     a_ups = Some 12, a_permalink = ascii ''/r/SaaS/comments/t1/x/c1/''\<rparr>"

definition sample_row :: row where
  "sample_row = \<lparr>r_score = 7, r_extracted_revenue = ascii ''$2000 mo'',
     r_comment_id = ascii ''c1'', r_author = ascii ''alice'', r_ups = Some 12,
     r_permalink = ascii ''https://www.reddit.com/r/SaaS/comments/t1/x/c1/'',
     r_body = scenario1_body\<rparr>"

text \<open>
  Claim C9. \<open>extract_evidence\<close> builds an evidence record exactly when the body is not
  empty and the money pattern matches in it. The numeric flag of \<open>has_quantitative\<close>
  is raised exactly when one of the five patterns (money, duration, rate, count,
  percent) matches, and without \<open>--allow_no_numbers\<close> every row of \<open>main\<close> has it
  raised. The numeric literal of the money pattern matches a bare number, so the money
  pattern of either file matches exactly the texts that contain a digit: a body with a
  digit passes the numeric requirement of both gates (and the other four patterns add
  nothing to the flag).
\<close>

theorem numeric_evidence_gates:
  "(extract_evidence sr sub c \<noteq> None)
     = (or_empty (c_body c) \<noteq> [] \<and> search REVENUE_PATTERNS (or_empty (c_body c)) \<noteq> None)
   \<and> fst (has_quantitative s)
     = (finditer RE_MONEY s \<noteq> [] \<or> finditer RE_DURATION s \<noteq> []
        \<or> finditer RE_RATE s \<noteq> [] \<or> finditer RE_COUNT s \<noteq> []
        \<or> finditer RE_PERCENT s \<noteq> [])
   \<and> (r \<in> set (main_rows False min_score cs) \<longrightarrow> fst (has_quantitative (r_body r)))
   \<and> (search REVENUE_PATTERNS body \<noteq> None) = list_ex is_digit body
   \<and> (finditer RE_MONEY body \<noteq> []) = list_ex is_digit body
   \<and> fst (has_quantitative body) = list_ex is_digit body
   \<and> (list_ex is_digit body \<longrightarrow> extract_evidence sr sub (c\<lparr>c_body := Some body\<rparr>) \<noteq> None)"
proof -
  have last: "extract_evidence sr sub (c\<lparr>c_body := Some body\<rparr>) \<noteq> None" if d: "list_ex is_digit body"
  proof -
    from d have "body \<noteq> []" by auto
    moreover from d have "search REVENUE_PATTERNS body \<noteq> None"
      using revenue_iff_digit [of body] by blast
    ultimately show ?thesis
      unfolding extract_evidence_iff by (simp add: or_empty_def)
  qed
  show ?thesis
    using extract_evidence_iff [of sr sub c] has_quantitative_any [of s]
      main_rows_numeric [of r min_score cs] revenue_iff_digit [of body] money_iff_digit [of body]
      has_quantitative_iff_digit [of body] last
    by blast
qed

theorem numeric_evidence_gates_witness:
  "sample_row \<in> set (main_rows False 4 [sample_a_comment])
   \<and> fst (has_quantitative (r_body sample_row))
   \<and> list_ex is_digit (ascii ''42'')
   \<and> map group0 (finditer RE_MONEY (ascii ''42'')) = [ascii ''42'']
   \<and> extract_evidence (ascii ''SaaS'') sample_thread
        ((sample_comment (ascii ''c3'') (ascii ''no number''))\<lparr>c_body := Some (ascii ''42'')\<rparr>)
       \<noteq> None"
proof -
  have h1: "sample_row \<in> set (main_rows False 4 [sample_a_comment])" by code_simp
  have h2: "list_ex is_digit (ascii ''42'')" by code_simp
  have v: "map group0 (finditer RE_MONEY (ascii ''42'')) = [ascii ''42'']" by code_simp
  note t = numeric_evidence_gates [where r = sample_row and min_score = "4"
      and cs = "[sample_a_comment]" and body = "ascii ''42''" and sr = "ascii ''SaaS''"
      and sub = sample_thread and c = "sample_comment (ascii ''c3'') (ascii ''no number'')"
      and s = "[]"]
  from t h1 have a: "fst (has_quantitative (r_body sample_row))" by blast
  from t h2 have b: "extract_evidence (ascii ''SaaS'') sample_thread
        ((sample_comment (ascii ''c3'') (ascii ''no number''))\<lparr>c_body := Some (ascii ''42'')\<rparr>)
       \<noteq> None" by blast
  from h1 a h2 v b show ?thesis by blast
qed

section \<open>Properties of period resolution\<close>

text \<open>
  The fragments that \<open>normalize_revenue\<close> and \<open>_detect_period\<close> look for in the unit.
  The two functions share the lists of day, week and year; for the month
  \<open>normalize_revenue\<close> has \<open>/m\<close> where \<open>_detect_period\<close> has \<open>m\<close>.
\<close>

definition day_frags :: "ustr list" where
  "day_frags = [ascii ''d'', ascii ''day'', ascii ''jour'', ascii ''j'']"

definition week_frags :: "ustr list" where
  "week_frags = [ascii ''wk'', ascii ''w'', ascii ''week'', ascii ''semaine'', ascii ''sem'']"

definition month_frags_detect :: "ustr list" where
  "month_frags_detect = [ascii ''mo'', ascii ''month'', ascii ''mois'', ascii ''m'']"

definition month_frags_revenue :: "ustr list" where
  "month_frags_revenue = [ascii ''mo'', ascii ''month'', ascii ''mois'', ascii ''/m'']"

definition year_frags :: "ustr list" where
  "year_frags = [ascii ''yr'', ascii ''y'', ascii ''year'', ascii ''an'',
                 ascii ''ann'' @ [233] @ ascii ''e'', ascii ''ans'']"

text \<open>The first category of a list whose test holds.\<close>

definition first_category :: "(string \<times> bool) list \<Rightarrow> ustr option" where
  "first_category cats = map_option (\<lambda>c. ascii (fst c)) (List.find snd cats)"

text \<open>The unit text that \<open>normalize_revenue\<close> scans, and the period it returns.\<close>

definition revenue_unit :: "rmatch \<Rightarrow> ustr" where
  "revenue_unit m = replace_chr 32 [] (lower (or_empty (m_group m ''unit'')))"

definition revenue_period :: "rmatch \<Rightarrow> ustr option" where
  "revenue_period m = fst (snd (snd (normalize_revenue m)))"

text \<open>
  The cascade of \<open>normalize_revenue\<close> tests month, week, day, year, in that order;
  \<open>cascade_priority\<close> is the same scan in the order day, week, month, year.
\<close>

definition cascade_revenue :: "ustr \<Rightarrow> ustr option" where
  "cascade_revenue v =
     first_category [(''month'', any_in month_frags_revenue v), (''week'', any_in week_frags v),
                     (''day'', any_in day_frags v), (''year'', any_in year_frags v)]"

definition cascade_priority :: "ustr \<Rightarrow> ustr option" where
  "cascade_priority v =
     first_category [(''day'', any_in day_frags v), (''week'', any_in week_frags v),
                     (''month'', any_in month_frags_revenue v), (''year'', any_in year_frags v)]"

text \<open>
  The texts that the group \<open>unit\<close> of the revenue pattern can hold: one of four
  prefixes, white space, one of nineteen unit words.
\<close>

definition unit_prefixes :: "ustr list" where
  "unit_prefixes = [[], ascii ''/'', ascii ''per'', ascii ''p/'']"

definition unit_cores :: "ustr list" where
  "unit_cores = [ascii ''d'', ascii ''day'', ascii ''jour'', ascii ''j'', ascii ''w'', ascii ''wk'',
     ascii ''week'', ascii ''semaine'', ascii ''sem'', ascii ''mo'', ascii ''month'',
     ascii ''mois'', ascii ''m'', ascii ''y'', ascii ''yr'', ascii ''year'', ascii ''an'',
     ascii ''ann'' @ [233] @ ascii ''e'', ascii ''ans'']"

text \<open>The phrases that \<open>_detect_period\<close> looks for in the whole body.\<close>

definition day_cues :: "ustr list" where
  "day_cues = [ascii '' per day'', ascii ''/d'', ascii ''par jour'']"

definition week_cues :: "ustr list" where
  "week_cues = [ascii '' per week'', ascii ''/wk'', ascii ''/w'', ascii ''par semaine'']"

definition month_cues :: "ustr list" where
  "month_cues = [ascii '' per month'', ascii ''/mo'', ascii ''/m'', ascii ''par mois'']"

definition year_cues :: "ustr list" where
  "year_cues = [ascii '' per year'', ascii ''/yr'', ascii ''/y'', ascii ''par an'',
                ascii ''par ann'' @ [233] @ ascii ''e'']"

text \<open>Two bodies and the match of the revenue pattern in each.\<close>

definition day_body :: ustr where
  "day_body = ascii ''$50/day''"

definition day_match :: rmatch where
  "day_match = \<lparr>m_string = day_body, m_start = 0, m_end = 7,
     m_caps = [(''unit'', 3, 7), (''amount'', 1, 3), (''currency'', 0, 1)]\<rparr>"

definition week_body :: ustr where
  "week_body = ascii ''500 / semaine, 70 par jour''"

definition week_match :: rmatch where
  "week_match = \<lparr>m_string = week_body, m_start = 0, m_end = 13,
     m_caps = [(''unit'', 4, 13), (''amount'', 0, 3), (''currency'', 0, 0)]\<rparr>"

text \<open>The period of \<open>normalize_revenue\<close> is its cascade on the unit; on the finitely
  many units without white space, and with a tab for the white space, the cascade
  agrees with the order day, week, month, year.\<close>

lemma revenue_period_cascade:
  "fst (normalize_revenue m) \<noteq> None \<Longrightarrow> revenue_period m = cascade_revenue (revenue_unit m)"
  by (auto simp: normalize_revenue_def revenue_period_def cascade_revenue_def revenue_unit_def
      first_category_def Let_def month_frags_revenue_def week_frags_def day_frags_def
      year_frags_def ascii_def split: option.splits)

lemma finite_check:
  "list_all (\<lambda>p. list_all (\<lambda>k. cascade_revenue (p @ k) = cascade_priority (p @ k)
                              \<and> cascade_revenue (p @ [9] @ k) = cascade_priority (p @ [9] @ k))
                        unit_cores) unit_prefixes"
  by code_simp

text \<open>The language of the unit group.\<close>

lemma lang_seqs_Cons: "lang (seqs (r # rs)) = {x @ y | x y. x \<in> lang r \<and> y \<in> lang (seqs rs)}"
  by (cases rs) auto

lemma lang_litu: "lang (litu w) = {w}"
proof (induction w)
  case Nil
  show ?case by (simp add: litu_def)
next
  case (Cons c w)
  have "lang (litu (c # w)) = {x @ y | x y. x \<in> lang (rx_chr c) \<and> y \<in> lang (litu w)}"
    unfolding litu_def list.map by (rule lang_seqs_Cons)
  then show ?case by (auto simp: Cons.IH rx_chr_def)
qed

lemma lang_lit: "lang (lit w) = {ascii w}"
  by (simp add: lit_def lang_litu)

lemma lang_alts: "lang (alts rs) = (\<Union>r\<in>set rs. lang r)"
  by (induction rs rule: alts.induct) auto

lemma star_spaces: "w \<in> star {[c] | c. is_space c} \<Longrightarrow> list_all is_space w"
  by (induction rule: star.induct) auto

lemma lang_spaces: "w \<in> lang (Star spc) \<Longrightarrow> list_all is_space w"
  by (auto simp: spc_def dest: star_spaces)

lemma lang_spaces1: "w \<in> lang (rx_plus spc) \<Longrightarrow> list_all is_space w"
  by (auto simp: rx_plus_def spc_def dest: star_spaces)

lemma lang_unit_prefix:
  assumes "p \<in> lang (Opt (alts [rx_chr 47, seqs [WordB, lit ''per'', rx_plus spc], lit ''p/'']))"
  shows "\<exists>p0 w. p = p0 @ w \<and> p0 \<in> set unit_prefixes \<and> list_all is_space w"
proof -
  from assms consider "p = []" | "p = [47]" | "p = ascii ''p/''"
    | w where "p = ascii ''per'' @ w" "w \<in> lang (rx_plus spc)"
    by (auto simp: lang_alts lang_lit rx_chr_def simp del: alts.simps)
  then show ?thesis
  proof cases
    case 1
    then show ?thesis by (intro exI [of _ "[]"]) (simp add: unit_prefixes_def)
  next
    case 2
    have "[47] = ascii ''/''" by (simp add: ascii_def)
    with 2 show ?thesis by (intro exI [of _ "ascii ''/''"] exI [of _ "[]"]) (simp add: unit_prefixes_def)
  next
    case 3
    then show ?thesis by (intro exI [of _ "ascii ''p/''"] exI [of _ "[]"]) (simp add: unit_prefixes_def)
  next
    case 4
    then show ?thesis
      by (intro exI [of _ "ascii ''per''"] exI [of _ w]) (simp add: unit_prefixes_def lang_spaces1)
  qed
qed

lemma lang_unit_core:
  assumes "k \<in> lang (alts [Seq (lit ''d'') (Opt (lit ''ay'')), lit ''jour'', lit ''j'',
                 Seq (lit ''w'') (Opt (Alt (lit ''k'') (lit ''eek''))), lit ''semaine'', lit ''sem'',
                 Seq (lit ''mo'') (Opt (lit ''nth'')), lit ''month'', lit ''mois'', lit ''m'',
                 Seq (lit ''y'') (Opt (Alt (lit ''r'') (lit ''ear''))), lit ''an'',
                 litu (ascii ''ann'' @ [233] @ ascii ''e''), lit ''ans''])"
  shows "k \<in> set unit_cores"
  using assms unfolding lang_alts unit_cores_def
  by (auto simp: lang_lit lang_litu ascii_def)

lemma lang_unit:
  assumes "u \<in> lang unit_rx"
  shows "\<exists>p0 w k. u = p0 @ w @ k \<and> p0 \<in> set unit_prefixes \<and> list_all is_space w
                   \<and> k \<in> set unit_cores"
proof -
  let ?P = "Opt (alts [rx_chr 47, seqs [WordB, lit ''per'', rx_plus spc], lit ''p/''])"
  let ?K = "alts [Seq (lit ''d'') (Opt (lit ''ay'')), lit ''jour'', lit ''j'',
                 Seq (lit ''w'') (Opt (Alt (lit ''k'') (lit ''eek''))), lit ''semaine'', lit ''sem'',
                 Seq (lit ''mo'') (Opt (lit ''nth'')), lit ''month'', lit ''mois'', lit ''m'',
                 Seq (lit ''y'') (Opt (Alt (lit ''r'') (lit ''ear''))), lit ''an'',
                 litu (ascii ''ann'' @ [233] @ ascii ''e''), lit ''ans'']"
  have eq: "unit_rx = Seq ?P (Seq (Star spc) ?K)"
    by (simp add: unit_rx_def)
  from assms have "u \<in> {x @ y | x y. x \<in> lang ?P
      \<and> y \<in> {x @ y | x y. x \<in> lang (Star spc) \<and> y \<in> lang ?K}}"
    unfolding eq by (simp only: lang.simps(3))
  then obtain p w k where u: "u = p @ w @ k" and p: "p \<in> lang ?P"
    and w: "w \<in> lang (Star spc)" and k: "k \<in> lang ?K"
    by blast
  from lang_unit_prefix [OF p] obtain p0 w1 where p0: "p = p0 @ w1" "p0 \<in> set unit_prefixes"
    "list_all is_space w1" by blast
  have "u = p0 @ (w1 @ w) @ k" by (simp add: u p0(1))
  moreover have "list_all is_space (w1 @ w)" using p0(3) lang_spaces [OF w] by simp
  ultimately show ?thesis using p0(2) lang_unit_core [OF k] by blast
qed

text \<open>A fragment holds no white space, so it occurs in a unit only on one side of the
  white space: the white space itself does not matter, only whether there is some.\<close>

lemma sublist_across_gap:
  assumes "w \<noteq> []" and "set w \<inter> set f = {}" and "f \<noteq> []"
  shows "sublist f (x @ w @ y) \<longleftrightarrow> sublist f x \<or> sublist f y"
proof
  assume "sublist f x \<or> sublist f y"
  then show "sublist f (x @ w @ y)"
    by (metis append.assoc sublist_append)
next
  assume a: "sublist f (x @ w @ y)"
  have nw: "\<not> sublist f w"
    using assms(2,3) set_mono_sublist [of f w] by (cases f) auto
  have right: "sublist f (w @ y) \<Longrightarrow> sublist f y"
  proof -
    assume "sublist f (w @ y)"
    then consider "sublist f w" | "sublist f y"
      | f1 f2 where "f = f1 @ f2" "suffix f1 w" "prefix f2 y"
      unfolding sublist_append by blast
    then show "sublist f y"
    proof cases
      case 1
      with nw show ?thesis by simp
    next
      case 2
      then show ?thesis .
    next
      case 3
      have "f1 = []"
      proof (rule ccontr)
        assume "f1 \<noteq> []"
        then have "last f1 \<in> set f1" by simp
        moreover have "set f1 \<subseteq> set w" using 3(2) by (auto simp: suffix_def)
        moreover have "set f1 \<subseteq> set f" using 3(1) by simp
        ultimately show False using assms(2) by auto
      qed
      with 3 show ?thesis by simp
    qed
  qed
  from a consider "sublist f x" | "sublist f (w @ y)"
    | f1 f2 where "f = f1 @ f2" "suffix f1 x" "prefix f2 (w @ y)"
    unfolding sublist_append [of f x "w @ y"] by blast
  then show "sublist f x \<or> sublist f y"
  proof cases
    case 1
    then show ?thesis by simp
  next
    case 2
    with right show ?thesis by simp
  next
    case 3
    have "f2 = []"
    proof (rule ccontr)
      assume ne: "f2 \<noteq> []"
      from 3(3) obtain z where z: "w @ y = f2 @ z" by (auto simp: prefix_def)
      from ne assms(1) z have "hd f2 = hd w"
        by (metis hd_append2)
      moreover have "hd f2 \<in> set f" using ne 3(1) by (cases f2) auto
      moreover have "hd w \<in> set w" using assms(1) by simp
      ultimately show False using assms(2) by auto
    qed
    with 3 show ?thesis by simp
  qed
qed

text \<open>The group \<open>unit\<close> of a match of the revenue pattern is in the language of
  \<open>unit_rx\<close>.\<close>

lemma glang_litu: "glang g (litu w) = {}"
proof (induction w)
  case Nil
  show ?case by (simp add: litu_def)
next
  case (Cons c w)
  then show ?case by (cases w) (simp_all add: litu_def rx_chr_def)
qed

lemma glang_lit: "glang g (lit w) = {}"
  by (simp add: lit_def glang_litu)

lemma glang_number: "glang g number_rx = {}"
  by (simp add: number_rx_def rep_range_def rx_plus_def dig_def cls_def eval_nat_numeral)

lemma glang_unit: "glang g unit_rx = {}"
  by (simp add: unit_rx_def glang_lit glang_litu rx_chr_def rx_plus_def spc_def)

lemma glang_revenue_unit: "glang ''unit'' REVENUE_PATTERNS = lang unit_rx"
  by (simp add: REVENUE_PATTERNS_def glang_number glang_unit cls_def spc_def)

lemma revenue_unit_lang:
  assumes "search REVENUE_PATTERNS s = Some m"
  shows "or_empty (m_group m ''unit'') \<in> insert [] (lang unit_rx)"
proof (cases "m_group m ''unit''")
  case None
  then show ?thesis by (simp add: or_empty_def)
next
  case (Some u)
  from assms have "u \<in> glang ''unit'' REVENUE_PATTERNS"
    using search_from_sound [of REVENUE_PATTERNS s 0 m] Some by (simp add: search_def)
  with Some show ?thesis by (simp add: or_empty_def glang_revenue_unit)
qed

lemma space_bounds: "is_space c \<Longrightarrow> c \<le> 32 \<or> c = 133 \<or> c = 160 \<or> 5760 \<le> c"
  unfolding is_space_def by arith

lemma space_lower1: "is_space c \<Longrightarrow> lower1 c = c"
  using space_bounds [of c] unfolding lower1_def by auto

lemma spaces_lower: "list_all is_space w \<Longrightarrow> lower w = w"
  by (induction w) (simp_all add: lower_def space_lower1)

lemma spaces_replace: "list_all is_space w \<Longrightarrow> list_all is_space (replace_chr 32 [] w)"
  by (induction w) (simp_all add: replace_chr_def)

lemma unit_parts_fixed:
  "list_all (\<lambda>p. replace_chr 32 [] (lower p) = p) (unit_prefixes @ unit_cores)"
  by code_simp

lemma frags_ok:
  "list_all (\<lambda>f. f \<noteq> [] \<and> list_all (\<lambda>c. \<not> is_space c) f)
     (day_frags @ week_frags @ month_frags_revenue @ year_frags)"
  by code_simp

lemma any_in_gap:
  assumes F: "list_all (\<lambda>f. f \<noteq> [] \<and> list_all (\<lambda>c. \<not> is_space c) f) F"
    and w: "list_all is_space w" "w \<noteq> []" and v: "list_all is_space v" "v \<noteq> []"
  shows "any_in F (x @ w @ y) = any_in F (x @ v @ y)"
proof -
  have "sublist f (x @ w @ y) = sublist f (x @ v @ y)" if f: "f \<in> set F" for f
  proof -
    from F f have ne: "f \<noteq> []" and ns: "\<forall>c\<in>set f. \<not> is_space c"
      by (auto simp: list_all_iff)
    from ns w(1) have "set w \<inter> set f = {}" by (auto simp: list_all_iff)
    moreover from ns v(1) have "set v \<inter> set f = {}" by (auto simp: list_all_iff)
    ultimately show ?thesis
      using sublist_across_gap [of w f x y] sublist_across_gap [of v f x y] w(2) v(2) ne
      by simp
  qed
  then show ?thesis by (simp add: any_in_def list_ex_iff str_in_def)
qed

lemma cascade_gap:
  assumes w: "list_all is_space w" "w \<noteq> []"
  shows "cascade_revenue (x @ w @ y) = cascade_revenue (x @ [9] @ y)"
    and "cascade_priority (x @ w @ y) = cascade_priority (x @ [9] @ y)"
proof -
  have t: "list_all is_space [9]" "[9::int] \<noteq> []" by (simp_all add: is_space_def)
  have g: "any_in F (x @ w @ y) = any_in F (x @ [9] @ y)"
    if "F \<in> {day_frags, week_frags, month_frags_revenue, year_frags}" for F
  proof -
    from that frags_ok have "list_all (\<lambda>f. f \<noteq> [] \<and> list_all (\<lambda>c. \<not> is_space c) f) F"
      by auto
    then show ?thesis using w t by (rule any_in_gap)
  qed
  show "cascade_revenue (x @ w @ y) = cascade_revenue (x @ [9] @ y)"
    unfolding cascade_revenue_def using g by simp
  show "cascade_priority (x @ w @ y) = cascade_priority (x @ [9] @ y)"
    unfolding cascade_priority_def using g by simp
qed

lemma cascade_unit:
  assumes "u \<in> insert [] (lang unit_rx)"
  shows "cascade_revenue (replace_chr 32 [] (lower u))
         = cascade_priority (replace_chr 32 [] (lower u))"
proof (cases "u = []")
  case True
  have "cascade_revenue (replace_chr 32 [] (lower [])) = cascade_priority (replace_chr 32 [] (lower []))"
    by code_simp
  with True show ?thesis by simp
next
  case False
  with assms have "u \<in> lang unit_rx" by simp
  from lang_unit [OF this] obtain p0 w k where u: "u = p0 @ w @ k"
    and p0: "p0 \<in> set unit_prefixes" and w: "list_all is_space w" and k: "k \<in> set unit_cores"
    by blast
  define w' where "w' = replace_chr 32 [] w"
  have fp: "replace_chr 32 [] (lower p0) = p0" and fk: "replace_chr 32 [] (lower k) = k"
    using unit_parts_fixed p0 k by (auto simp: list_all_iff)
  have v: "replace_chr 32 [] (lower u) = p0 @ w' @ k"
    by (simp add: u lower_append replace_chr_append fp fk spaces_lower [OF w] w'_def)
  have sw: "list_all is_space w'" unfolding w'_def using w by (rule spaces_replace)
  from finite_check p0 k
  have fc: "cascade_revenue (p0 @ k) = cascade_priority (p0 @ k)"
    "cascade_revenue (p0 @ [9] @ k) = cascade_priority (p0 @ [9] @ k)"
    by (auto simp: list_all_iff)
  show ?thesis
  proof (cases "w' = []")
    case True
    with v fc(1) show ?thesis by simp
  next
    case False
    from cascade_gap [OF sw False] fc(2) show ?thesis unfolding v by simp
  qed
qed

lemma revenue_period_priority:
  assumes "search REVENUE_PATTERNS s = Some m" and "fst (normalize_revenue m) \<noteq> None"
  shows "revenue_period m = cascade_priority (revenue_unit m)"
proof -
  have "revenue_period m = cascade_revenue (revenue_unit m)"
    using assms(2) by (rule revenue_period_cascade)
  also have "\<dots> = cascade_priority (revenue_unit m)"
    unfolding revenue_unit_def using revenue_unit_lang [OF assms(1)] by (rule cascade_unit)
  finally show ?thesis .
qed

lemma detect_period_cascade:
  "detect_period unit_text body =
     first_category
       [(''day'', any_in day_frags (lower (or_empty unit_text)) \<or> any_in day_cues (lower body)),
        (''week'', any_in week_frags (lower (or_empty unit_text)) \<or> any_in week_cues (lower body)),
        (''month'', any_in month_frags_detect (lower (or_empty unit_text))
                    \<or> any_in month_cues (lower body)),
        (''year'', any_in year_frags (lower (or_empty unit_text)) \<or> any_in year_cues (lower body))]"
  by (simp add: detect_period_def first_category_def Let_def day_frags_def week_frags_def
      month_frags_detect_def year_frags_def day_cues_def week_cues_def month_cues_def
      year_cues_def ascii_def)

lemma detect_period_day:
  "any_in day_frags (lower (or_empty unit_text)) \<Longrightarrow>
     detect_period unit_text body = Some (ascii ''day'')"
  by (simp add: detect_period_def Let_def day_frags_def)

text \<open>On a text that the pattern cannot capture as a unit the two orders differ.\<close>

lemma cascade_order_differs:
  "cascade_revenue (ascii ''day/mo'') = Some (ascii ''month'')
   \<and> cascade_priority (ascii ''day/mo'') = Some (ascii ''day'')"
  by code_simp

text \<open>
  Claim C4, as the code has it. \<open>_detect_period\<close>, whose result is the period that
  is scored, returns the first category in the order day, week, month, year for which
  the unit holds a fragment of the category or the body holds a phrase of the category;
  a day fragment in the unit therefore always gives day. \<open>normalize_revenue\<close>
  scans the unit alone and tests month, week, day, year in that order; on every match
  of the revenue pattern whose amount parses, its period is nevertheless the first
  category in the order day, week, month, year that has a fragment in the unit.
\<close>

theorem period_priority:
  "detect_period unit_text body =
     first_category
       [(''day'', any_in day_frags (lower (or_empty unit_text)) \<or> any_in day_cues (lower body)),
        (''week'', any_in week_frags (lower (or_empty unit_text)) \<or> any_in week_cues (lower body)),
        (''month'', any_in month_frags_detect (lower (or_empty unit_text))
                    \<or> any_in month_cues (lower body)),
        (''year'', any_in year_frags (lower (or_empty unit_text)) \<or> any_in year_cues (lower body))]
   \<and> (any_in day_frags (lower (or_empty unit_text)) \<longrightarrow>
        detect_period unit_text body = Some (ascii ''day''))
   \<and> (search REVENUE_PATTERNS s = Some m \<and> fst (normalize_revenue m) \<noteq> None \<longrightarrow>
        revenue_period m =
          first_category
            [(''day'', any_in day_frags (revenue_unit m)),
             (''week'', any_in week_frags (revenue_unit m)),
             (''month'', any_in month_frags_revenue (revenue_unit m)),
             (''year'', any_in year_frags (revenue_unit m))])"
  using detect_period_cascade [of unit_text body] detect_period_day [of unit_text body]
    revenue_period_priority [of s m]
  unfolding cascade_priority_def by blast

theorem period_priority_witness:
  "search REVENUE_PATTERNS day_body = Some day_match
   \<and> fst (normalize_revenue day_match) \<noteq> None
   \<and> m_group day_match ''unit'' = Some (ascii ''/day'')
   \<and> any_in day_frags (lower (ascii ''/day'')) \<and> any_in year_frags (lower (ascii ''/day''))
   \<and> detect_period (Some (ascii ''/day'')) day_body = Some (ascii ''day'')
   \<and> revenue_period day_match = Some (ascii ''day'')"
proof -
  have h1: "search REVENUE_PATTERNS day_body = Some day_match" by code_simp
  have h2: "fst (normalize_revenue day_match) \<noteq> None" by code_simp
  have h3: "any_in day_frags (lower (or_empty (Some (ascii ''/day''))))" by code_simp
  have g: "m_group day_match ''unit'' = Some (ascii ''/day'')" by code_simp
  have y: "any_in day_frags (lower (ascii ''/day'')) \<and> any_in year_frags (lower (ascii ''/day''))"
    by code_simp
  have v: "first_category
            [(''day'', any_in day_frags (revenue_unit day_match)),
             (''week'', any_in week_frags (revenue_unit day_match)),
             (''month'', any_in month_frags_revenue (revenue_unit day_match)),
             (''year'', any_in year_frags (revenue_unit day_match))] = Some (ascii ''day'')"
    by code_simp
  note t = period_priority [where unit_text = "Some (ascii ''/day'')" and body = day_body
      and s = day_body and m = day_match]
  from t h3 have a: "detect_period (Some (ascii ''/day'')) day_body = Some (ascii ''day'')"
    by blast
  from t h1 h2 v have b: "revenue_period day_match = Some (ascii ''day'')" by simp
  from h1 h2 g y a b show ?thesis by blast
qed

text \<open>The claim as stated fails: in \<open>500 / semaine, 70 par jour\<close> the unit of the
  match is \<open>/ semaine\<close>, which holds week and month fragments and no day fragment,
  and \<open>_detect_period\<close> returns day, on the phrase \<open>par jour\<close> of the body.\<close>

theorem period_priority_counterexample:
  "search REVENUE_PATTERNS week_body = Some week_match
   \<and> m_group week_match ''unit'' = Some (ascii ''/ semaine'')
   \<and> \<not> any_in day_frags (lower (ascii ''/ semaine''))
   \<and> any_in week_frags (lower (ascii ''/ semaine''))
   \<and> any_in month_frags_detect (lower (ascii ''/ semaine''))
   \<and> detect_period (m_group week_match ''unit'') week_body = Some (ascii ''day'')
   \<and> detect_period (m_group week_match ''unit'') week_body \<noteq> Some (ascii ''week'')"
  by code_simp

end
